(* ===== verification/Chord_Prelude.thy ===== *)
theory Chord_Prelude
  imports Main "HOL-Library.Word"
begin

text \<open>
  Shared vocabulary of the Chordify development (\<^verbatim>\<open>src/node.py\<close>).
  The digest used for identifiers is a parameter \<open>sha1 :: digest\<close> of every
  operation that hashes: it stands for \<^verbatim>\<open>int(hashlib.sha1(b).hexdigest(), 16)\<close>,
  the SHA-1 digest of a byte string read as an unbounded integer.  Python strings
  are modelled by their UTF-8 encoding, so \<^verbatim>\<open>s.encode()\<close> is the identity.
  A TCP address is the pair \<open>(ip, port)\<close> the node binds and peers connect to.
  The named collections gather the evaluation rules of the Python value layer and
  of the node handlers, so that component proofs are \<open>simp add: py_simps\<close>.
\<close>

named_theorems py_simps "evaluation rules of the Python/JSON value layer"
named_theorems node_simps "evaluation rules of one node's request handlers"

type_synonym digest = "string \<Rightarrow> nat"
type_synonym addr = "string \<times> int"

text \<open>Generic facts on results, options and maps that the components share.\<close>

lemma case_sum_Inr_iff:
  "(case x of Inl e \<Rightarrow> Inl (g e) | Inr a \<Rightarrow> f a) = Inr b \<longleftrightarrow> (\<exists>a. x = Inr a \<and> f a = Inr b)"
  by (cases x) auto

lemma map_upd_dom_same:
  "m a = Some x \<Longrightarrow> dom (m(a \<mapsto> y)) = dom m"
  by auto

lemma map_upd_other [simp]:
  "b \<noteq> a \<Longrightarrow> (m(a \<mapsto> y)) b = m b"
  by simp

end
