(* ===== verification/Py_Json.thy ===== *)
theory Py_Json
  imports Chord_Prelude
begin

text \<open>
  The Python value layer the node is written against: the JSON values that
  \<^verbatim>\<open>json.loads\<close> produces and \<^verbatim>\<open>json.dumps\<close> accepts (floats are not
  modelled), the exceptions the handlers can raise, dictionary access
  (\<^verbatim>\<open>d.get(k)\<close> and \<^verbatim>\<open>d[k]\<close>), the comparisons \<^verbatim>\<open>==\<close> and \<^verbatim>\<open><\<close>
  on those values, and \<^verbatim>\<open>str()\<close> as the f-strings of the responses use it.
  A JSON object is the association list of the Python dict, keys unique.
\<close>

datatype json =
    JNull
  | JBool bool
  | JInt int
  | JStr string
  | JList "json list"
  | JObj "(string \<times> json) list"

datatype py_exc =
    AttributeError string
  | KeyError string
  | TypeError string
  | ValueError
  | OverflowError
  | ConnectionRefusedError
  | JSONDecodeError

subsection \<open>Decimal and repr formatting\<close>

definition digit_char :: "nat \<Rightarrow> char" where
  "digit_char d = char_of (48 + d)"

fun nat_digits :: "nat \<Rightarrow> nat list" where
  "nat_digits n = (if n < 10 then [n] else nat_digits (n div 10) @ [n mod 10])"

declare nat_digits.simps [simp del]

definition show_nat :: "nat \<Rightarrow> string" where
  "show_nat n = map digit_char (nat_digits n)"

text \<open>\<^verbatim>\<open>str(i)\<close> for a Python int.\<close>

definition show_int :: "int \<Rightarrow> string" where
  "show_int i = (if i < 0 then CHR ''-'' # show_nat (nat (- i)) else show_nat (nat i))"

definition hex_digit :: "nat \<Rightarrow> char" where
  "hex_digit d = (if d < 10 then char_of (48 + d) else char_of (87 + d))"

text \<open>
  One character inside \<^verbatim>\<open>repr(s)\<close> quoted with \<open>q\<close>; below 256 the characters
  \<^verbatim>\<open>str.isprintable\<close> rejects are \<open>0x00-0x1F\<close>, \<open>0x7F-0xA0\<close> and \<open>0xAD\<close>.
\<close>

definition repr_char :: "char \<Rightarrow> char \<Rightarrow> string" where
  "repr_char q c =
    (if c = CHR 0x5C then [CHR 0x5C, CHR 0x5C]
     else if c = q then [CHR 0x5C, c]
     else if c = CHR 0x09 then [CHR 0x5C, CHR ''t'']
     else if c = CHR 0x0A then [CHR 0x5C, CHR ''n'']
     else if c = CHR 0x0D then [CHR 0x5C, CHR ''r'']
     else if of_char c < (32::nat) \<or> (127 \<le> (of_char c :: nat) \<and> (of_char c :: nat) \<le> 160) \<or>
             of_char c = (173::nat)
       then [CHR 0x5C, CHR ''x'', hex_digit (of_char c div 16), hex_digit (of_char c mod 16)]
     else [c])"

definition repr_str :: "string \<Rightarrow> string" where
  "repr_str s =
    (let q = (if CHR 0x27 \<in> set s \<and> CHR 0x22 \<notin> set s then CHR 0x22 else CHR 0x27)
     in q # concat (map (repr_char q) s) @ [q])"

fun join_with :: "string \<Rightarrow> string list \<Rightarrow> string" where
  "join_with sep [] = []"
| "join_with sep [x] = x"
| "join_with sep (x # y # zs) = x @ sep @ join_with sep (y # zs)"

text \<open>\<^verbatim>\<open>repr(v)\<close>, the form a value takes inside a list or dict.\<close>

fun py_repr :: "json \<Rightarrow> string" where
  "py_repr JNull = ''None''"
| "py_repr (JBool b) = (if b then ''True'' else ''False'')"
| "py_repr (JInt i) = show_int i"
| "py_repr (JStr s) = repr_str s"
| "py_repr (JList xs) = ''['' @ join_with '', '' (map py_repr xs) @ '']''"
| "py_repr (JObj kvs) =
     ''{'' @ join_with '', '' (map (\<lambda>(k, v). repr_str k @ '': '' @ py_repr v) kvs) @ ''}''"

text \<open>\<^verbatim>\<open>str(v)\<close>, the form an f-string substitutes.\<close>

definition py_str :: "json \<Rightarrow> string" where
  "py_str v = (case v of JStr s \<Rightarrow> s | _ \<Rightarrow> py_repr v)"

definition quoted :: "string \<Rightarrow> string" where
  "quoted s = CHR 0x27 # s @ [CHR 0x27]"

definition py_type_name :: "json \<Rightarrow> string" where
  "py_type_name v = (case v of JNull \<Rightarrow> ''NoneType'' | JBool _ \<Rightarrow> ''bool'' | JInt _ \<Rightarrow> ''int''
     | JStr _ \<Rightarrow> ''str'' | JList _ \<Rightarrow> ''list'' | JObj _ \<Rightarrow> ''dict'')"

text \<open>\<^verbatim>\<open>str(e)\<close> for the exceptions whose text reaches a response.\<close>

fun exc_str :: "py_exc \<Rightarrow> string" where
  "exc_str (AttributeError m) = m"
| "exc_str (KeyError k) = repr_str k"
| "exc_str (TypeError m) = m"
| "exc_str ValueError = ''invalid literal for int() with base 10''"
| "exc_str OverflowError = ''connect(): port must be 0-65535.''"
| "exc_str ConnectionRefusedError = ''[Errno 111] Connection refused''"
| "exc_str JSONDecodeError = ''Expecting value: line 1 column 1 (char 0)''"

subsection \<open>Dictionaries\<close>

text \<open>\<^verbatim>\<open>d.get(k)\<close>: \<open>None\<close> for a missing key; only a dict has \<^verbatim>\<open>get\<close>.\<close>

definition dict_get :: "json \<Rightarrow> string \<Rightarrow> py_exc + json" where
  "dict_get d k =
    (case d of
      JObj kvs \<Rightarrow> Inr (case map_of kvs k of Some v \<Rightarrow> v | None \<Rightarrow> JNull)
    | _ \<Rightarrow> Inl (AttributeError (quoted (py_type_name d) @ '' object has no attribute '' @ quoted ''get'')))"

text \<open>\<^verbatim>\<open>d[k]\<close>: \<^verbatim>\<open>KeyError\<close> for a missing key, \<^verbatim>\<open>TypeError\<close> on a non-dict.\<close>

definition dict_idx :: "json \<Rightarrow> string \<Rightarrow> py_exc + json" where
  "dict_idx d k =
    (case d of
      JObj kvs \<Rightarrow> (case map_of kvs k of Some v \<Rightarrow> Inr v | None \<Rightarrow> Inl (KeyError k))
    | _ \<Rightarrow> Inl (TypeError (quoted (py_type_name d) @ '' object is not subscriptable'')))"

subsection \<open>Comparison\<close>

text \<open>The integer a JSON number denotes (\<^verbatim>\<open>bool\<close> is a subclass of \<^verbatim>\<open>int\<close>).\<close>

definition py_num :: "json \<Rightarrow> int option" where
  "py_num v = (case v of JInt i \<Rightarrow> Some i | JBool b \<Rightarrow> Some (if b then 1 else 0) | _ \<Rightarrow> None)"

text \<open>
  Python's ordering where one side is an int, which is every comparison the node
  makes: a number compares numerically, anything else raises \<^verbatim>\<open>TypeError\<close>.
\<close>

definition py_cmp :: "string \<Rightarrow> (int \<Rightarrow> int \<Rightarrow> bool) \<Rightarrow> json \<Rightarrow> json \<Rightarrow> py_exc + bool" where
  "py_cmp opname r a b =
    (case (py_num a, py_num b) of
      (Some x, Some y) \<Rightarrow> Inr (r x y)
    | _ \<Rightarrow> Inl (TypeError (quoted opname @ '' not supported between instances of ''
                               @ quoted (py_type_name a) @ '' and '' @ quoted (py_type_name b))))"

text \<open>The chained comparison \<^verbatim>\<open>a < b <= c\<close>: the second test runs only if the first holds.\<close>

definition py_chain_lt_le :: "json \<Rightarrow> json \<Rightarrow> json \<Rightarrow> py_exc + bool" where
  "py_chain_lt_le a b c =
    (case py_cmp ''<'' (<) a b of
      Inl e \<Rightarrow> Inl e
    | Inr False \<Rightarrow> Inr False
    | Inr True \<Rightarrow> py_cmp ''<='' (\<le>) b c)"

text \<open>A status-tagged error response \<^verbatim>\<open>{"status": "error", "message": m}\<close>.\<close>

definition error_dict :: "string \<Rightarrow> json" where
  "error_dict m = JObj [(''status'', JStr ''error''), (''message'', JStr m)]"

lemma digit_char_simps [simp]:
  "digit_char 0 = CHR ''0''" "digit_char 1 = CHR ''1''" "digit_char 2 = CHR ''2''"
  "digit_char 3 = CHR ''3''" "digit_char 4 = CHR ''4''" "digit_char 5 = CHR ''5''"
  "digit_char 6 = CHR ''6''" "digit_char 7 = CHR ''7''" "digit_char 8 = CHR ''8''"
  "digit_char 9 = CHR ''9''"
  by code_simp+

lemma py_num_simps [simp]:
  "py_num (JInt i) = Some i" "py_num (JBool b) = Some (if b then 1 else 0)"
  "py_num JNull = None" "py_num (JStr s) = None" "py_num (JList xs) = None" "py_num (JObj kvs) = None"
  by (simp_all add: py_num_def)

lemmas py_defs [py_simps] = dict_get_def dict_idx_def py_num_def py_cmp_def py_chain_lt_le_def

end
