(* ===== verification/Identity.thy ===== *)
theory Identity
  imports Py_Json
begin

text \<open>
  Identity (\<^verbatim>\<open>ChordNode.generate_id\<close>, \<^verbatim>\<open>src/node.py\<close> lines 46-49, and the
  key hashing repeated in \<^verbatim>\<open>insert\<close>, \<^verbatim>\<open>query\<close>, \<^verbatim>\<open>delete\<close>, lines 199,
  205, 212).  Both read the SHA-1 digest of a byte string as an integer and reduce it
  modulo \<open>2^160\<close>.  The lemmas show the identifier space: every identifier lies in
  \<open>[0, 2^160)\<close>, is the unsigned reading of the digest as a \<open>160 word\<close>, and node
  identifiers and hashed keys are one function of the bytes digested; decimal
  printing is injective, so distinct addresses digest distinct strings.
\<close>

text \<open>The f-string \<^verbatim>\<open>f"{ip}:{port}"\<close> of \<^verbatim>\<open>generate_id\<close>.\<close>

definition addr_string :: "string \<Rightarrow> int \<Rightarrow> string" where
  "addr_string ip port = ip @ '':'' @ show_int port"

definition generate_id :: "digest \<Rightarrow> string \<Rightarrow> int \<Rightarrow> int" where
  "generate_id sha1 ip port = int (sha1 (addr_string ip port)) mod 2 ^ 160"

text \<open>\<^verbatim>\<open>int(hashlib.sha1(key.encode()).hexdigest(), 16) % (2**160)\<close>.\<close>

definition hash_key :: "digest \<Rightarrow> string \<Rightarrow> int" where
  "hash_key sha1 key = int (sha1 key) mod 2 ^ 160"

subsection \<open>The identifier space\<close>

lemma hash_key_bounds [simp]:
  "0 \<le> hash_key sha1 k" "hash_key sha1 k < 2 ^ 160"
  by (simp_all add: hash_key_def)

lemma generate_id_is_hash_key:
  "generate_id sha1 ip port = hash_key sha1 (addr_string ip port)"
  by (simp add: generate_id_def hash_key_def)

lemma hash_key_word:
  "hash_key sha1 k = uint (word_of_nat (sha1 k) :: 160 word)"
  by (simp add: hash_key_def unsigned_of_nat take_bit_eq_mod zmod_int)

lemma hash_key_small_digest:
  "sha1 k < 2 ^ 160 \<Longrightarrow> hash_key sha1 k = int (sha1 k)"
  by (simp add: hash_key_def)

subsection \<open>Decimal printing is injective\<close>

lemma nat_digits_ne [simp]: "nat_digits n \<noteq> []"
  by (subst nat_digits.simps) simp

lemma nat_digits_lt: "d \<in> set (nat_digits n) \<Longrightarrow> d < 10"
proof (induction n rule: nat_digits.induct)
  case (1 n)
  then show ?case by (subst (asm) nat_digits.simps) (auto split: if_splits)
qed

lemma nat_digits_value: "foldl (\<lambda>a d. 10 * a + d) 0 (nat_digits n) = n"
proof (induction n rule: nat_digits.induct)
  case (1 n)
  then show ?case by (subst nat_digits.simps) simp
qed

lemma digit_char_inj: "d < 10 \<Longrightarrow> e < 10 \<Longrightarrow> digit_char d = digit_char e \<Longrightarrow> d = e"
  by (drule arg_cong[where f = "of_char :: char \<Rightarrow> nat"]) (simp add: digit_char_def)

lemma show_nat_inj: "show_nat m = show_nat n \<Longrightarrow> m = n"
proof -
  assume eq: "show_nat m = show_nat n"
  have "inj_on digit_char (set (nat_digits m) \<union> set (nat_digits n))"
    using nat_digits_lt[of _ m] nat_digits_lt[of _ n] digit_char_inj by (auto intro: inj_onI)
  with eq have "nat_digits m = nat_digits n" by (simp add: show_nat_def inj_on_map_eq_map)
  then show "m = n" by (metis nat_digits_value)
qed

lemma show_nat_not_minus: "show_nat n = CHR ''-'' # cs \<Longrightarrow> False"
proof -
  assume eq: "show_nat n = CHR ''-'' # cs"
  obtain d ds where nd: "nat_digits n = d # ds" using nat_digits_ne by (cases "nat_digits n") auto
  with eq have "digit_char d = CHR ''-''" by (simp add: show_nat_def)
  moreover have "d < 10" using nat_digits_lt[of d n] nd by simp
  ultimately show False by (drule_tac arg_cong[where f = "of_char :: char \<Rightarrow> nat"]) (simp add: digit_char_def)
qed

lemma show_int_inj: "show_int i = show_int j \<Longrightarrow> i = j"
  by (cases "i < 0"; cases "j < 0")
     (auto simp: show_int_def dest: show_nat_inj show_nat_not_minus show_nat_not_minus[OF sym])

lemma split_at_sep:
  "c \<notin> set a \<Longrightarrow> c \<notin> set a' \<Longrightarrow> a @ c # x = a' @ c # y \<Longrightarrow> a = a' \<and> x = y"
proof (induction a arbitrary: a')
  case Nil
  then show ?case by (cases a') auto
next
  case (Cons b a)
  then show ?case by (cases a') auto
qed

subsection \<open>Properties of the identifiers\<close>

text \<open>
  C20. Two different addresses whose host strings contain no \<^verbatim>\<open>:\<close> (every IPv4
  address or host name) digest different strings \<^verbatim>\<open>"ip:port"\<close>: a clash of their
  node identifiers is a collision of SHA-1 modulo \<open>2^160\<close> between two distinct
  strings, never an artefact of the formatting.
\<close>

theorem id_clash_is_digest_collision:
  assumes "CHR '':'' \<notin> set a" and "CHR '':'' \<notin> set a'" and "(a, p) \<noteq> (a', p')"
    and "generate_id sha1 a p = generate_id sha1 a' p'"
  shows "addr_string a p \<noteq> addr_string a' p' \<and>
         hash_key sha1 (addr_string a p) = hash_key sha1 (addr_string a' p')"
proof
  show "addr_string a p \<noteq> addr_string a' p'"
  proof
    assume "addr_string a p = addr_string a' p'"
    then have "a = a' \<and> show_int p = show_int p'"
      using split_at_sep[OF assms(1,2)] by (simp add: addr_string_def)
    with show_int_inj assms(3) show False by blast
  qed
  show "hash_key sha1 (addr_string a p) = hash_key sha1 (addr_string a' p')"
    using assms(4) by (simp add: generate_id_is_hash_key)
qed

theorem id_clash_is_digest_collision_witness:
  "addr_string ''10.0.0.1'' 5000 \<noteq> addr_string ''10.0.0.2'' 5000 \<and>
   hash_key (\<lambda>s. length s) (addr_string ''10.0.0.1'' 5000) =
   hash_key (\<lambda>s. length s) (addr_string ''10.0.0.2'' 5000)"
  by (rule id_clash_is_digest_collision) (simp_all add: generate_id_def addr_string_def)

end
