(* ===== verification/Store.thy ===== *)
theory Store
  imports Identity
begin

text \<open>
  Key-value store (\<^verbatim>\<open>ChordNode.insert\<close>, \<^verbatim>\<open>query\<close>, \<^verbatim>\<open>delete\<close>,
  \<^verbatim>\<open>src/node.py\<close> lines 197-216, on the dict \<^verbatim>\<open>self.data_store\<close> of line 17).
  The store maps a hashed key to the JSON value stored under it.  Each operation
  takes the \<^verbatim>\<open>key\<close> and \<^verbatim>\<open>value\<close> fields exactly as \<^verbatim>\<open>request.get\<close>
  returned them, so a missing or non-string key is the \<^verbatim>\<open>AttributeError\<close> of
  \<^verbatim>\<open>key.encode()\<close>.  Each returns the response dict and the new store.
  The lemmas give every branch, the insert/query and delete/query round trips, the
  frame of an operation on the other keys, and a refinement: on a set of keys the
  digest does not collide on, the store behaves as a Python dict keyed by the key
  strings themselves.
\<close>

type_synonym store = "int \<rightharpoonup> json"

text \<open>\<^verbatim>\<open>key.encode()\<close>: only a \<^verbatim>\<open>str\<close> has it.\<close>

definition key_bytes :: "json \<Rightarrow> py_exc + string" where
  "key_bytes key =
    (case key of
      JStr k \<Rightarrow> Inr k
    | _ \<Rightarrow> Inl (AttributeError (quoted (py_type_name key) @ '' object has no attribute '' @ quoted ''encode'')))"

definition dht_insert :: "digest \<Rightarrow> store \<Rightarrow> json \<Rightarrow> json \<Rightarrow> py_exc + (json \<times> store)" where
  "dht_insert sha1 ds key value =
    (case key_bytes key of
      Inl e \<Rightarrow> Inl e
    | Inr k \<Rightarrow>
        Inr (JObj [(''status'', JStr ''success''),
                   (''message'', JStr (''Inserted '' @ k @ '' -> '' @ py_str value))],
             ds(hash_key sha1 k \<mapsto> value)))"

definition dht_query :: "digest \<Rightarrow> store \<Rightarrow> json \<Rightarrow> py_exc + (json \<times> store)" where
  "dht_query sha1 ds key =
    (case key_bytes key of
      Inl e \<Rightarrow> Inl e
    | Inr k \<Rightarrow>
        (case ds (hash_key sha1 k) of
          Some v \<Rightarrow> Inr (JObj [(''status'', JStr ''success''), (''value'', v)], ds)
        | None \<Rightarrow> Inr (error_dict ''Key not found'', ds)))"

definition dht_delete :: "digest \<Rightarrow> store \<Rightarrow> json \<Rightarrow> py_exc + (json \<times> store)" where
  "dht_delete sha1 ds key =
    (case key_bytes key of
      Inl e \<Rightarrow> Inl e
    | Inr k \<Rightarrow>
        (case ds (hash_key sha1 k) of
          Some _ \<Rightarrow> Inr (JObj [(''status'', JStr ''success''), (''message'', JStr (''Deleted '' @ k))],
                         ds(hash_key sha1 k := None))
        | None \<Rightarrow> Inr (error_dict ''Key not found'', ds)))"

text \<open>The abstract store: a Python dict keyed by the key strings of \<open>K\<close>.\<close>

definition kv_abs :: "digest \<Rightarrow> string set \<Rightarrow> store \<Rightarrow> (string \<rightharpoonup> json)" where
  "kv_abs sha1 K ds = (\<lambda>k. if k \<in> K then ds (hash_key sha1 k) else None)"

lemmas store_defs [node_simps] = key_bytes_def dht_insert_def dht_query_def dht_delete_def

subsection \<open>Branches\<close>

lemma dht_insert_str [simp]:
  "dht_insert sha1 ds (JStr k) v =
     Inr (JObj [(''status'', JStr ''success''), (''message'', JStr (''Inserted '' @ k @ '' -> '' @ py_str v))],
          ds(hash_key sha1 k \<mapsto> v))"
  by (simp add: store_defs)

lemma dht_query_str [simp]:
  "dht_query sha1 ds (JStr k) =
     (case ds (hash_key sha1 k) of
        Some v \<Rightarrow> Inr (JObj [(''status'', JStr ''success''), (''value'', v)], ds)
      | None \<Rightarrow> Inr (error_dict ''Key not found'', ds))"
  by (simp add: store_defs)

lemma dht_delete_str [simp]:
  "dht_delete sha1 ds (JStr k) =
     (case ds (hash_key sha1 k) of
        Some _ \<Rightarrow> Inr (JObj [(''status'', JStr ''success''), (''message'', JStr (''Deleted '' @ k))],
                       ds(hash_key sha1 k := None))
      | None \<Rightarrow> Inr (error_dict ''Key not found'', ds))"
  by (simp add: store_defs)

lemma key_bytes_Inl_iff:
  "(\<exists>e. key_bytes key = Inl e) \<longleftrightarrow> (\<forall>k. key \<noteq> JStr k)"
  by (cases key) (simp_all add: key_bytes_def)

lemma store_ops_non_str:
  assumes "\<forall>k. key \<noteq> JStr k"
  shows "\<exists>e. dht_insert sha1 ds key v = Inl e"
    and "\<exists>e. dht_query sha1 ds key = Inl e"
    and "\<exists>e. dht_delete sha1 ds key = Inl e"
proof -
  from assms obtain e where e: "key_bytes key = Inl e"
    using key_bytes_Inl_iff by blast
  show "\<exists>e. dht_insert sha1 ds key v = Inl e"
    using e by (simp add: dht_insert_def)
  show "\<exists>e. dht_query sha1 ds key = Inl e"
    using e by (simp add: dht_query_def)
  show "\<exists>e. dht_delete sha1 ds key = Inl e"
    using e by (simp add: dht_delete_def)
qed

lemma dht_query_store_unchanged:
  "dht_query sha1 ds key = Inr (r, ds') \<Longrightarrow> ds' = ds"
  by (auto simp: dht_query_def split: sum.splits option.splits)

subsection \<open>The abstract store\<close>

lemma kv_abs_upd:
  assumes "inj_on (hash_key sha1) K" "k \<in> K"
  shows "kv_abs sha1 K (ds(hash_key sha1 k \<mapsto> v)) = (kv_abs sha1 K ds)(k \<mapsto> v)"
  using assms by (auto simp: kv_abs_def inj_on_def)

lemma kv_abs_del:
  assumes "inj_on (hash_key sha1) K" "k \<in> K"
  shows "kv_abs sha1 K (ds(hash_key sha1 k := None)) = (kv_abs sha1 K ds)(k := None)"
  using assms by (auto simp: kv_abs_def inj_on_def)


subsection \<open>Properties of the store\<close>

text \<open>
  C15. Inserting a string key always succeeds, and a query for the same key right after
  returns the inserted value (store round trip).
\<close>

theorem insert_then_query:
  "\<exists>r ds'. dht_insert sha1 ds (JStr k) v = Inr (r, ds') \<and>
           dht_query sha1 ds' (JStr k) = Inr (JObj [(''status'', JStr ''success''), (''value'', v)], ds')"
  by simp

text \<open>
  C16. Deleting a string key always returns a reply (success or \<^verbatim>\<open>Key not found\<close>),
  and a query for that key right after answers \<^verbatim>\<open>Key not found\<close>.
\<close>

theorem delete_then_query:
  "\<exists>r ds'. dht_delete sha1 ds (JStr k) = Inr (r, ds') \<and>
           dht_query sha1 ds' (JStr k) = Inr (error_dict ''Key not found'', ds')"
  by (simp split: option.split)

text \<open>
  C17. Deleting or querying a key that is not stored answers the error
  \<^verbatim>\<open>Key not found\<close> and leaves the store unchanged: a failure, not a crash.
\<close>

theorem delete_absent_key:
  assumes "ds (hash_key sha1 k) = None"
  shows "dht_delete sha1 ds (JStr k) = Inr (error_dict ''Key not found'', ds) \<and>
         dht_query sha1 ds (JStr k) = Inr (error_dict ''Key not found'', ds)"
  using assms by simp

theorem delete_absent_key_witness:
  "dht_delete (\<lambda>s. length s) Map.empty (JStr ''song'') = Inr (error_dict ''Key not found'', Map.empty) \<and>
   dht_query (\<lambda>s. length s) Map.empty (JStr ''song'') = Inr (error_dict ''Key not found'', Map.empty)"
  by (rule delete_absent_key) simp

text \<open>
  C18. On a set of keys whose hashes do not collide, the store refines a Python dict
  keyed by the key strings: insert is a map update, delete a removal, and query
  answers from the abstract dict without changing the store.
\<close>

theorem store_refines_dict:
  assumes inj: "inj_on (hash_key sha1) K" and k: "k \<in> K"
  shows "(dht_insert sha1 ds (JStr k) v = Inr (r, ds') \<longrightarrow>
            kv_abs sha1 K ds' = (kv_abs sha1 K ds)(k \<mapsto> v)) \<and>
         (dht_delete sha1 ds (JStr k) = Inr (r, ds') \<longrightarrow>
            kv_abs sha1 K ds' = (kv_abs sha1 K ds)(k := None)) \<and>
         (dht_query sha1 ds (JStr k) = Inr (r, ds') \<longrightarrow>
            ds' = ds \<and>
            r = (case kv_abs sha1 K ds k of
                   Some w \<Rightarrow> JObj [(''status'', JStr ''success''), (''value'', w)]
                 | None \<Rightarrow> error_dict ''Key not found''))"
proof (intro conjI impI)
  assume "dht_insert sha1 ds (JStr k) v = Inr (r, ds')"
  then show "kv_abs sha1 K ds' = (kv_abs sha1 K ds)(k \<mapsto> v)"
    using kv_abs_upd[OF inj k] by auto
next
  assume del: "dht_delete sha1 ds (JStr k) = Inr (r, ds')"
  show "kv_abs sha1 K ds' = (kv_abs sha1 K ds)(k := None)"
  proof (cases "ds (hash_key sha1 k)")
    case None
    with del have "ds' = ds" by simp
    moreover from None k have "kv_abs sha1 K ds k = None" by (simp add: kv_abs_def)
    ultimately show ?thesis by (simp add: fun_upd_idem)
  next
    case (Some w)
    with del have "ds' = ds(hash_key sha1 k := None)" by auto
    then show ?thesis using kv_abs_del[OF inj k] by simp
  qed
next
  assume q: "dht_query sha1 ds (JStr k) = Inr (r, ds')"
  then show "ds' = ds" by (rule dht_query_store_unchanged)
  from q k show "r = (case kv_abs sha1 K ds k of
                   Some w \<Rightarrow> JObj [(''status'', JStr ''success''), (''value'', w)]
                 | None \<Rightarrow> error_dict ''Key not found'')"
    by (auto simp: kv_abs_def split: option.splits)
qed

theorem store_refines_dict_witness:
  "dht_insert (\<lambda>s. length s) [1 \<mapsto> JInt 7] (JStr ''bb'') (JInt 8) =
      Inr (JObj [(''status'', JStr ''success''), (''message'', JStr ''Inserted bb -> 8'')], [1 \<mapsto> JInt 7, 2 \<mapsto> JInt 8]) \<and>
   kv_abs (\<lambda>s. length s) {''a'', ''bb''} [1 \<mapsto> JInt 7, 2 \<mapsto> JInt 8] = [''a'' \<mapsto> JInt 7, ''bb'' \<mapsto> JInt 8] \<and>
   dht_delete (\<lambda>s. length s) [1 \<mapsto> JInt 7] (JStr ''a'') =
      Inr (JObj [(''status'', JStr ''success''), (''message'', JStr ''Deleted a'')], [1 \<mapsto> JInt 7](1 := None)) \<and>
   kv_abs (\<lambda>s. length s) {''a'', ''bb''} ([1 \<mapsto> JInt 7](1 := None)) = Map.empty \<and>
   dht_query (\<lambda>s. length s) [1 \<mapsto> JInt 7] (JStr ''a'') =
      Inr (JObj [(''status'', JStr ''success''), (''value'', JInt 7)], [1 \<mapsto> JInt 7])"
proof -
  have inj: "inj_on (hash_key (\<lambda>s. length s)) {''a'', ''bb''}" by (simp add: hash_key_def)
  have abs0: "kv_abs (\<lambda>s. length s) {''a'', ''bb''} [1 \<mapsto> JInt 7] = [''a'' \<mapsto> JInt 7]"
    by (auto simp: kv_abs_def hash_key_def)
  have ins: "dht_insert (\<lambda>s. length s) [1 \<mapsto> JInt 7] (JStr ''bb'') (JInt 8) =
      Inr (JObj [(''status'', JStr ''success''), (''message'', JStr ''Inserted bb -> 8'')], [1 \<mapsto> JInt 7, 2 \<mapsto> JInt 8])"
    by (simp add: hash_key_def py_str_def show_int_def show_nat_def nat_digits.simps)
  have del: "dht_delete (\<lambda>s. length s) [1 \<mapsto> JInt 7] (JStr ''a'') =
      Inr (JObj [(''status'', JStr ''success''), (''message'', JStr ''Deleted a'')], [1 \<mapsto> JInt 7](1 := None))"
    by (simp add: hash_key_def)
  have qry: "dht_query (\<lambda>s. length s) [1 \<mapsto> JInt 7] (JStr ''a'') =
      Inr (JObj [(''status'', JStr ''success''), (''value'', JInt 7)], [1 \<mapsto> JInt 7])"
    by (simp add: hash_key_def)
  note R = store_refines_dict[OF inj, of "''bb''" "[1 \<mapsto> JInt 7]" "JInt 8"]
    store_refines_dict[OF inj, of "''a''" "[1 \<mapsto> JInt 7]"]
  show ?thesis
    using ins del qry abs0 R by (auto simp: fun_upd_twist)
qed

text \<open>
  C19. Keys are identified by their reduced digest only: two keys with the same hash
  share one entry, so a value inserted under one is returned, and deleted, under the
  other.
\<close>

theorem colliding_keys_share_entry:
  assumes "hash_key sha1 k1 = hash_key sha1 k2"
  shows "\<exists>r ds'. dht_insert sha1 ds (JStr k1) v = Inr (r, ds') \<and>
           dht_query sha1 ds' (JStr k2) = Inr (JObj [(''status'', JStr ''success''), (''value'', v)], ds') \<and>
           (\<exists>r'. dht_delete sha1 ds' (JStr k2) = Inr (r', ds'(hash_key sha1 k1 := None)))"
  using assms by simp

theorem colliding_keys_share_entry_witness:
  "\<exists>r ds'. dht_insert (\<lambda>s. length s) Map.empty (JStr ''ab'') (JInt 1) = Inr (r, ds') \<and>
     dht_query (\<lambda>s. length s) ds' (JStr ''cd'') = Inr (JObj [(''status'', JStr ''success''), (''value'', JInt 1)], ds') \<and>
     (\<exists>r'. dht_delete (\<lambda>s. length s) ds' (JStr ''cd'') = Inr (r', ds'(hash_key (\<lambda>s. length s) ''ab'' := None)))"
  by (rule colliding_keys_share_entry) (simp add: hash_key_def)

end
