(* ===== verification/Node.thy ===== *)
theory Node
  imports Store
begin

text \<open>
  One Chord node (\<^verbatim>\<open>class ChordNode\<close>, \<^verbatim>\<open>src/node.py\<close>): its fields, the
  routing step \<^verbatim>\<open>find_successor\<close> (lines 116-133), \<^verbatim>\<open>update_predecessor\<close>
  (lines 139-143), the dispatcher \<^verbatim>\<open>process_request\<close> (lines 176-195) and the
  per-connection handler \<^verbatim>\<open>handle_request\<close> (lines 161-173).  The successor and
  predecessor are the JSON dicts the code stores; \<open>None\<close> for the successor is the
  attribute a failed join never sets (reading it raises \<^verbatim>\<open>AttributeError\<close>).
  A handler either answers (\<open>Respond\<close>) or, for a forwarded lookup, sends a
  request to another address and answers with that reply (\<open>Relay\<close>); the
  network theory runs the relay.  The lemmas give each branch of each handler.
\<close>

record node =
  ip :: string
  port :: int
  node_id :: int
  data_store :: store
  predecessor :: "json option"
  successor :: "json option"

datatype handled =
    Respond json
  | Relay json json json

text \<open>\<^verbatim>\<open>{"node_id": i, "ip": a, "port": p}\<close>, the descriptor nodes exchange.\<close>

definition node_descriptor :: "json \<Rightarrow> json \<Rightarrow> json \<Rightarrow> json" where
  "node_descriptor nid a p = JObj [(''node_id'', nid), (''ip'', a), (''port'', p)]"

definition self_descriptor :: "node \<Rightarrow> json" where
  "self_descriptor n = node_descriptor (JInt (node_id n)) (JStr (ip n)) (JInt (port n))"

definition success_successor :: "json \<Rightarrow> json" where
  "success_successor s = JObj [(''status'', JStr ''success''), (''successor'', s)]"

definition find_successor_request :: "json \<Rightarrow> json" where
  "find_successor_request x = JObj [(''command'', JStr ''find_successor''), (''node_id'', x)]"

text \<open>\<^verbatim>\<open>self.successor\<close>: unset after a failed join.\<close>

definition get_successor :: "node \<Rightarrow> py_exc + json" where
  "get_successor n =
    (case successor n of
      Some s \<Rightarrow> Inr s
    | None \<Rightarrow> Inl (AttributeError (quoted ''ChordNode'' @ '' object has no attribute '' @ quoted ''successor'')))"

definition find_successor :: "node \<Rightarrow> json \<Rightarrow> py_exc + handled" where
  "find_successor n x =
    (case get_successor n of Inl e \<Rightarrow> Inl e | Inr s \<Rightarrow>
     (case dict_idx s ''node_id'' of Inl e \<Rightarrow> Inl e | Inr sid \<Rightarrow>
      if py_num sid = Some (node_id n) then Inr (Respond (success_successor s))
      else
       (case py_chain_lt_le (JInt (node_id n)) x sid of
         Inl e \<Rightarrow> Inl e
       | Inr True \<Rightarrow> Inr (Respond (success_successor s))
       | Inr False \<Rightarrow>
          (case dict_idx s ''ip'' of Inl e \<Rightarrow> Inl e | Inr fip \<Rightarrow>
           (case dict_idx s ''port'' of Inl e \<Rightarrow> Inl e | Inr fport \<Rightarrow>
             Inr (Relay fip fport (find_successor_request x)))))))"

definition update_predecessor :: "node \<Rightarrow> json \<Rightarrow> json \<Rightarrow> json \<Rightarrow> handled \<times> node" where
  "update_predecessor n nid a p =
    (Respond (JObj [(''status'', JStr ''success''), (''message'', JStr ''Predecessor updated'')]),
     n\<lparr>predecessor := Some (node_descriptor nid a p)\<rparr>)"

text \<open>A store operation's result, written back into \<^verbatim>\<open>self.data_store\<close>.\<close>

definition store_step :: "node \<Rightarrow> py_exc + (json \<times> store) \<Rightarrow> py_exc + (handled \<times> node)" where
  "store_step n r =
    (case r of Inl e \<Rightarrow> Inl e | Inr (resp, ds) \<Rightarrow> Inr (Respond resp, n\<lparr>data_store := ds\<rparr>))"

definition process_request :: "digest \<Rightarrow> node \<Rightarrow> json \<Rightarrow> py_exc + (handled \<times> node)" where
  "process_request sha1 n request =
    (case dict_get request ''command'' of Inl e \<Rightarrow> Inl e | Inr command \<Rightarrow>
     (case dict_get request ''key'' of Inl e \<Rightarrow> Inl e | Inr key \<Rightarrow>
     (case dict_get request ''value'' of Inl e \<Rightarrow> Inl e | Inr value \<Rightarrow>
     (case dict_get request ''node_id'' of Inl e \<Rightarrow> Inl e | Inr nid \<Rightarrow>
      if command = JStr ''insert'' then store_step n (dht_insert sha1 (data_store n) key value)
      else if command = JStr ''query'' then store_step n (dht_query sha1 (data_store n) key)
      else if command = JStr ''delete'' then store_step n (dht_delete sha1 (data_store n) key)
      else if command = JStr ''find_successor'' then
        (case find_successor n nid of Inl e \<Rightarrow> Inl e | Inr h \<Rightarrow> Inr (h, n))
      else if command = JStr ''update_predecessor'' then
        (case dict_idx request ''ip'' of Inl e \<Rightarrow> Inl e | Inr a \<Rightarrow>
         (case dict_idx request ''port'' of Inl e \<Rightarrow> Inl e | Inr p \<Rightarrow>
           Inr (update_predecessor n nid a p)))
      else Inr (Respond (error_dict (''Invalid command received: '' @ py_str command)), n)))))"

text \<open>
  \<^verbatim>\<open>handle_request\<close>: the received bytes decode to a request (\<open>Some\<close>) or not
  (\<open>None\<close>: empty or not JSON).  Any exception closes the connection without a
  reply, which is \<open>None\<close> here; the node's state is then unchanged, since every
  handler mutates only after its last check.
\<close>

definition handle_request :: "digest \<Rightarrow> node \<Rightarrow> json option \<Rightarrow> (handled \<times> node) option" where
  "handle_request sha1 n data =
    (case data of
      None \<Rightarrow> None
    | Some request \<Rightarrow> (case process_request sha1 n request of Inl _ \<Rightarrow> None | Inr r \<Rightarrow> Some r))"

lemmas node_defs [node_simps] =
  node_descriptor_def self_descriptor_def success_successor_def find_successor_request_def
  get_successor_def find_successor_def update_predecessor_def store_step_def
  process_request_def handle_request_def

subsection \<open>Descriptors and requests\<close>

lemma dict_idx_node_descriptor [simp]:
  "dict_idx (node_descriptor i a p) ''node_id'' = Inr i"
  "dict_idx (node_descriptor i a p) ''ip'' = Inr a"
  "dict_idx (node_descriptor i a p) ''port'' = Inr p"
  by (simp_all add: node_descriptor_def dict_idx_def)

lemma dict_get_find_successor_request [simp]:
  "dict_get (find_successor_request x) ''command'' = Inr (JStr ''find_successor'')"
  "dict_get (find_successor_request x) ''key'' = Inr JNull"
  "dict_get (find_successor_request x) ''value'' = Inr JNull"
  "dict_get (find_successor_request x) ''node_id'' = Inr x"
  by (simp_all add: find_successor_request_def dict_get_def)

lemma dict_idx_success_successor [simp]:
  "dict_idx (success_successor s) ''status'' = Inr (JStr ''success'')"
  "dict_idx (success_successor s) ''successor'' = Inr s"
  by (simp_all add: success_successor_def dict_idx_def)

lemma dict_idx_error_dict [simp]:
  "dict_idx (error_dict m) ''status'' = Inr (JStr ''error'')"
  by (simp add: error_dict_def dict_idx_def)

lemma self_descriptor_update [simp]:
  "self_descriptor (n\<lparr>successor := s\<rparr>) = self_descriptor n"
  "self_descriptor (n\<lparr>predecessor := q\<rparr>) = self_descriptor n"
  "self_descriptor (n\<lparr>data_store := d\<rparr>) = self_descriptor n"
  by (simp_all add: self_descriptor_def)

lemma self_descriptor_inj:
  "self_descriptor m = self_descriptor n \<longleftrightarrow>
     node_id m = node_id n \<and> ip m = ip n \<and> port m = port n"
  by (simp add: self_descriptor_def node_descriptor_def)

subsection \<open>Routing step\<close>

text \<open>The dispatcher hands a \<^verbatim>\<open>find_successor\<close> request to the routing step and keeps the state.\<close>

lemma process_find_successor_request [simp]:
  "process_request sha1 n (find_successor_request x) =
     (case find_successor n x of Inl e \<Rightarrow> Inl e | Inr h \<Rightarrow> Inr (h, n))"
  by (simp add: process_request_def)

lemma find_successor_unset:
  "successor n = None \<Longrightarrow> \<exists>e. find_successor n x = Inl e"
  by (simp add: find_successor_def get_successor_def)

lemma find_successor_self_id:
  assumes "successor n = Some s" "dict_idx s ''node_id'' = Inr sid" "py_num sid = Some (node_id n)"
  shows "find_successor n x = Inr (Respond (success_successor s))"
  using assms by (simp add: find_successor_def get_successor_def)

lemma find_successor_descr:
  assumes "successor n = Some (node_descriptor (JInt i) a p)" "i \<noteq> node_id n"
  shows "find_successor n x =
     (case py_chain_lt_le (JInt (node_id n)) x (JInt i) of
        Inl e \<Rightarrow> Inl e
      | Inr True \<Rightarrow> Inr (Respond (success_successor (node_descriptor (JInt i) a p)))
      | Inr False \<Rightarrow> Inr (Relay a p (find_successor_request x)))"
  using assms by (simp add: find_successor_def get_successor_def split: sum.split bool.split)

lemma py_chain_lt_le_num:
  "py_num x = Some v \<Longrightarrow> py_chain_lt_le (JInt a) x (JInt b) = Inr (a < v \<and> v \<le> b)"
  by (simp add: py_chain_lt_le_def py_cmp_def split: bool.split)

subsection \<open>Properties of the dispatcher and the routing step\<close>

text \<open>
  C7. A handled request never changes a node's address, identifier or successor: only
  the store and the predecessor are ever written after startup.
\<close>

theorem handlers_keep_successor:
  assumes "handle_request sha1 n d = Some (h, n')"
  shows "ip n' = ip n \<and> port n' = port n \<and> node_id n' = node_id n \<and> successor n' = successor n"
  using assms
  by (auto simp: handle_request_def process_request_def store_step_def update_predecessor_def
           split: option.splits sum.splits if_splits)

theorem handlers_keep_successor_witness:
  "handle_request (\<lambda>s. length s)
     \<lparr>ip = ''a'', port = 1, node_id = 5, data_store = Map.empty, predecessor = None, successor = None\<rparr>
     (Some (JObj [(''command'', JStr ''update_predecessor''), (''node_id'', JInt 9),
                  (''ip'', JStr ''b''), (''port'', JInt 2)])) =
   Some (Respond (JObj [(''status'', JStr ''success''), (''message'', JStr ''Predecessor updated'')]),
         \<lparr>ip = ''a'', port = 1, node_id = 5, data_store = Map.empty,
          predecessor = Some (node_descriptor (JInt 9) (JStr ''b'') (JInt 2)), successor = None\<rparr>) \<and>
   successor \<lparr>ip = ''a'', port = 1, node_id = 5, data_store = Map.empty,
          predecessor = Some (node_descriptor (JInt 9) (JStr ''b'') (JInt 2)), successor = None\<rparr> =
   successor \<lparr>ip = ''a'', port = 1, node_id = 5, data_store = Map.empty, predecessor = None, successor = None\<rparr>"
proof -
  have h: "handle_request (\<lambda>s. length s)
     \<lparr>ip = ''a'', port = 1, node_id = 5, data_store = Map.empty, predecessor = None, successor = None\<rparr>
     (Some (JObj [(''command'', JStr ''update_predecessor''), (''node_id'', JInt 9),
                  (''ip'', JStr ''b''), (''port'', JInt 2)])) =
   Some (Respond (JObj [(''status'', JStr ''success''), (''message'', JStr ''Predecessor updated'')]),
         \<lparr>ip = ''a'', port = 1, node_id = 5, data_store = Map.empty,
          predecessor = Some (node_descriptor (JInt 9) (JStr ''b'') (JInt 2)), successor = None\<rparr>)"
    by (simp add: handle_request_def process_request_def dict_get_def dict_idx_def update_predecessor_def)
  show ?thesis using h handlers_keep_successor[OF h] by simp
qed

text \<open>
  C8. \<^verbatim>\<open>find_successor\<close> at a node whose successor has another id answers
  with that successor when the numeric target lies in \<open>(self_id, successor_id]\<close>,
  and leaves the node unchanged.
\<close>

theorem lookup_in_interval:
  assumes "successor n = Some (node_descriptor (JInt j) a p)" "j \<noteq> node_id n"
    "py_num x = Some v" "node_id n < v" "v \<le> j"
  shows "process_request sha1 n (find_successor_request x) =
           Inr (Respond (success_successor (node_descriptor (JInt j) a p)), n)"
  using assms by (simp add: find_successor_descr py_chain_lt_le_num)

theorem lookup_in_interval_witness:
  "process_request (\<lambda>s. length s) \<lparr>ip = ''a'', port = 1, node_id = 10, data_store = Map.empty, predecessor = None,
      successor = Some (node_descriptor (JInt 20) (JStr ''b'') (JInt 2))\<rparr> (find_successor_request (JInt 15)) =
     Inr (Respond (success_successor (node_descriptor (JInt 20) (JStr ''b'') (JInt 2))), \<lparr>ip = ''a'', port = 1, node_id = 10, data_store = Map.empty, predecessor = None,
      successor = Some (node_descriptor (JInt 20) (JStr ''b'') (JInt 2))\<rparr>)"
  by (rule lookup_in_interval[where v = 15]) simp_all

text \<open>
  C9. \<^verbatim>\<open>find_successor\<close> at a node whose successor has another id forwards
  the identical request to the successor's address whenever the numeric target is
  outside \<open>(self_id, successor_id]\<close> read as plain integers; when the successor's id
  is smaller (the wrap-around) that interval is empty and every target is forwarded.
\<close>

theorem lookup_outside_interval_forwards:
  assumes "successor n = Some (node_descriptor (JInt j) a p)" "j \<noteq> node_id n"
    "py_num x = Some v" "\<not> (node_id n < v \<and> v \<le> j)"
  shows "process_request sha1 n (find_successor_request x) = Inr (Relay a p (find_successor_request x), n)"
  using assms by (simp add: find_successor_descr py_chain_lt_le_num split: bool.split)

theorem lookup_outside_interval_forwards_witness:
  "process_request (\<lambda>s. length s) \<lparr>ip = ''a'', port = 1, node_id = 10, data_store = Map.empty, predecessor = None,
      successor = Some (node_descriptor (JInt 3) (JStr ''c'') (JInt 3))\<rparr> (find_successor_request (JInt 15)) =
     Inr (Relay (JStr ''c'') (JInt 3) (find_successor_request (JInt 15)), \<lparr>ip = ''a'', port = 1, node_id = 10, data_store = Map.empty, predecessor = None,
      successor = Some (node_descriptor (JInt 3) (JStr ''c'') (JInt 3))\<rparr>)"
  by (rule lookup_outside_interval_forwards[where j = 3 and v = 15]) simp_all

text \<open>
  C10. A lookup whose \<^verbatim>\<open>node_id\<close> is missing or not a number, at a node that is
  not its own successor, raises in the comparison and the connection is closed
  without a reply.
\<close>

theorem lookup_non_numeric_target_dropped:
  assumes "successor n = Some (node_descriptor (JInt j) a p)" "j \<noteq> node_id n" "py_num x = None"
  shows "handle_request sha1 n (Some (find_successor_request x)) = None"
  using assms by (simp add: handle_request_def find_successor_descr py_chain_lt_le_def py_cmp_def)

theorem lookup_non_numeric_target_dropped_witness:
  "handle_request (\<lambda>s. length s) \<lparr>ip = ''a'', port = 1, node_id = 10, data_store = Map.empty, predecessor = None,
      successor = Some (node_descriptor (JInt 20) (JStr ''b'') (JInt 2))\<rparr> (Some (find_successor_request JNull)) = None"
  by (rule lookup_non_numeric_target_dropped[where j = 20 and a = "JStr ''b''" and p = "JInt 2"]) simp_all

text \<open>
  C11. A request dict whose \<^verbatim>\<open>command\<close> is none of the five commands (or is
  missing) gets the reply \<^verbatim>\<open>{"status": "error", "message": "Invalid command
  received: <command>"}\<close>, the command printed as Python's \<^verbatim>\<open>str\<close>, and the node is
  unchanged.
\<close>

theorem unknown_command_reply:
  assumes "dict_get request ''command'' = Inr c"
    "c \<notin> {JStr ''insert'', JStr ''query'', JStr ''delete'', JStr ''find_successor'', JStr ''update_predecessor''}"
  shows "process_request sha1 n request =
           Inr (Respond (error_dict (''Invalid command received: '' @ py_str c)), n)"
  using assms by (auto simp: process_request_def dict_get_def split: json.splits)

theorem unknown_command_reply_witness:
  "process_request (\<lambda>s. length s) \<lparr>ip = ''a'', port = 1, node_id = 10, data_store = Map.empty, predecessor = None,
      successor = Some (node_descriptor (JInt 20) (JStr ''b'') (JInt 2))\<rparr> (JObj [(''command'', JStr ''shutdown'')]) =
     Inr (Respond (error_dict ''Invalid command received: shutdown''), \<lparr>ip = ''a'', port = 1, node_id = 10, data_store = Map.empty, predecessor = None,
      successor = Some (node_descriptor (JInt 20) (JStr ''b'') (JInt 2))\<rparr>)"
  using unknown_command_reply[of "JObj [(''command'', JStr ''shutdown'')]" "JStr ''shutdown''"
      "\<lambda>s. length s" "\<lparr>ip = ''a'', port = 1, node_id = 10, data_store = Map.empty, predecessor = None,
      successor = Some (node_descriptor (JInt 20) (JStr ''b'') (JInt 2))\<rparr>"]
  by (simp add: dict_get_def py_str_def)

text \<open>
  C12. A request that is not a JSON object, or bytes that are not JSON, gets no reply:
  the connection is closed.
\<close>

theorem non_dict_request_dropped:
  assumes "\<forall>kvs. request \<noteq> JObj kvs"
  shows "handle_request sha1 n (Some request) = None \<and> handle_request sha1 n None = None"
  using assms by (cases request) (simp_all add: handle_request_def process_request_def dict_get_def)

theorem non_dict_request_dropped_witness:
  "handle_request (\<lambda>s. length s) \<lparr>ip = ''a'', port = 1, node_id = 10, data_store = Map.empty, predecessor = None,
      successor = Some (node_descriptor (JInt 20) (JStr ''b'') (JInt 2))\<rparr> (Some (JList [JStr ''insert''])) = None"
  using non_dict_request_dropped[of "JList [JStr ''insert'']" "\<lambda>s. length s" "\<lparr>ip = ''a'', port = 1, node_id = 10, data_store = Map.empty, predecessor = None,
      successor = Some (node_descriptor (JInt 20) (JStr ''b'') (JInt 2))\<rparr>"] by simp

text \<open>
  C13. \<^verbatim>\<open>update_predecessor\<close> with \<^verbatim>\<open>ip\<close> and \<^verbatim>\<open>port\<close> present
  overwrites the predecessor with the claimant's descriptor, whatever was there and
  without any check, and answers success.
\<close>

theorem update_predecessor_overwrites:
  assumes "dict_get request ''command'' = Inr (JStr ''update_predecessor'')"
    "dict_get request ''node_id'' = Inr nid" "dict_idx request ''ip'' = Inr a" "dict_idx request ''port'' = Inr p"
  shows "process_request sha1 n request =
           Inr (Respond (JObj [(''status'', JStr ''success''), (''message'', JStr ''Predecessor updated'')]),
                n\<lparr>predecessor := Some (node_descriptor nid a p)\<rparr>)"
  using assms by (auto simp: process_request_def dict_get_def update_predecessor_def split: json.splits)

theorem update_predecessor_overwrites_witness:
  "process_request (\<lambda>s. length s) \<lparr>ip = ''a'', port = 1, node_id = 10, data_store = Map.empty, predecessor = None,
      successor = Some (node_descriptor (JInt 20) (JStr ''b'') (JInt 2))\<rparr>
     (JObj [(''command'', JStr ''update_predecessor''), (''ip'', JStr ''z''), (''port'', JInt 9)]) =
   Inr (Respond (JObj [(''status'', JStr ''success''), (''message'', JStr ''Predecessor updated'')]),
        \<lparr>ip = ''a'', port = 1, node_id = 10, data_store = Map.empty, predecessor = None,
      successor = Some (node_descriptor (JInt 20) (JStr ''b'') (JInt 2))\<rparr>\<lparr>predecessor := Some (node_descriptor JNull (JStr ''z'') (JInt 9))\<rparr>)"
  by (rule update_predecessor_overwrites) (simp_all add: dict_get_def dict_idx_def)

text \<open>
  C14. \<^verbatim>\<open>update_predecessor\<close> without an \<^verbatim>\<open>ip\<close> field raises
  \<^verbatim>\<open>KeyError\<close> and the connection is closed without a reply.
\<close>

theorem update_predecessor_missing_ip:
  assumes "map_of kvs ''command'' = Some (JStr ''update_predecessor'')" "map_of kvs ''ip'' = None"
  shows "process_request sha1 n (JObj kvs) = Inl (KeyError ''ip'') \<and>
         handle_request sha1 n (Some (JObj kvs)) = None"
  using assms by (simp add: handle_request_def process_request_def dict_get_def dict_idx_def)

theorem update_predecessor_missing_ip_witness:
  "process_request (\<lambda>s. length s) \<lparr>ip = ''a'', port = 1, node_id = 10, data_store = Map.empty, predecessor = None,
      successor = Some (node_descriptor (JInt 20) (JStr ''b'') (JInt 2))\<rparr>
     (JObj [(''command'', JStr ''update_predecessor''), (''port'', JInt 9)]) = Inl (KeyError ''ip'') \<and>
   handle_request (\<lambda>s. length s) \<lparr>ip = ''a'', port = 1, node_id = 10, data_store = Map.empty, predecessor = None,
      successor = Some (node_descriptor (JInt 20) (JStr ''b'') (JInt 2))\<rparr>
     (Some (JObj [(''command'', JStr ''update_predecessor''), (''port'', JInt 9)])) = None"
  by (rule update_predecessor_missing_ip) simp_all

end
