(* ===== verification/Network.thy ===== *)
theory Network
  imports Node
begin

text \<open>
  The ring as a network of nodes, keyed by the address each listens on.  A request
  travels by \<^verbatim>\<open>send_request\<close> (\<^verbatim>\<open>src/node.py\<close> lines 146-156): connect, send
  one JSON request, read one reply.  The server side is \<^verbatim>\<open>handle_request\<close> of the
  node at that address; a forwarded lookup makes that node call \<^verbatim>\<open>send_request\<close>
  itself and relay the answer, so \<open>send_request\<close> is recursive with no hop bound:
  it is a \<^theory_text>\<open>partial_function (option)\<close>, \<open>None\<close> being a lookup that is
  forwarded forever.  Every failure of the transport is the error dict of line 156.
  Startup (\<^verbatim>\<open>__init__\<close>, lines 13-38), the join protocol (\<^verbatim>\<open>join\<close>, lines
  79-112) and the listener (\<^verbatim>\<open>start_server\<close>, lines 51-76) build the network;
  \<open>net_step\<close> is one node start or one client request, and \<open>reachable\<close> the
  networks that a sequence of them builds from no node at all.
\<close>

type_synonym network = "addr \<rightharpoonup> node"

text \<open>\<^verbatim>\<open>client.connect((ip, port))\<close>: the host must be a \<^verbatim>\<open>str\<close>, the port an int in range.\<close>

definition connect_addr :: "json \<Rightarrow> json \<Rightarrow> py_exc + addr" where
  "connect_addr a p =
    (case a of
      JStr host \<Rightarrow>
        (case py_num p of
          Some pn \<Rightarrow> if 0 \<le> pn \<and> pn \<le> 65535 then Inr (host, pn) else Inl OverflowError
        | None \<Rightarrow> Inl (TypeError (quoted (py_type_name p) @ '' object cannot be interpreted as an integer'')))
    | _ \<Rightarrow> Inl (TypeError (''str, bytes or bytearray expected, not '' @ py_type_name a)))"

partial_function (option) send_request ::
  "digest \<Rightarrow> network \<Rightarrow> json \<Rightarrow> json \<Rightarrow> json \<Rightarrow> (json \<times> network) option" where
  "send_request sha1 net a p request =
    (case connect_addr a p of
      Inl e \<Rightarrow> Some (error_dict (exc_str e), net)
    | Inr ad \<Rightarrow>
       (case net ad of
         None \<Rightarrow> Some (error_dict (exc_str ConnectionRefusedError), net)
       | Some n \<Rightarrow>
          (case handle_request sha1 n (Some request) of
            None \<Rightarrow> Some (error_dict (exc_str JSONDecodeError), net)
          | Some (Respond r, n') \<Rightarrow> Some (r, net(ad \<mapsto> n'))
          | Some (Relay fa fp freq, n') \<Rightarrow> send_request sha1 (net(ad \<mapsto> n')) fa fp freq)))"

definition update_predecessor_request :: "node \<Rightarrow> json" where
  "update_predecessor_request n =
    JObj [(''command'', JStr ''update_predecessor''), (''node_id'', JInt (node_id n)),
          (''ip'', JStr (ip n)), (''port'', JInt (port n))]"

text \<open>
  \<^verbatim>\<open>join\<close>: ask the bootstrap address for the successor of this node's id, record
  it, and announce this node to it as its predecessor.  Every exception is caught
  and printed, leaving whatever was set so far; the announcement's reply is not
  looked at.  \<open>None\<close> is a lookup that never returns.
\<close>

definition join :: "digest \<Rightarrow> network \<Rightarrow> node \<Rightarrow> string \<Rightarrow> int \<Rightarrow> (node \<times> network) option" where
  "join sha1 net n bip bport =
    (case send_request sha1 net (JStr bip) (JInt bport) (find_successor_request (JInt (node_id n))) of
      None \<Rightarrow> None
    | Some (resp, net1) \<Rightarrow>
       (case dict_idx resp ''status'' of
         Inl _ \<Rightarrow> Some (n, net1)
       | Inr st \<Rightarrow>
          if st = JStr ''success'' then
            (case dict_idx resp ''successor'' of
              Inl _ \<Rightarrow> Some (n, net1)
            | Inr s \<Rightarrow>
               (case dict_idx s ''ip'' of
                 Inl _ \<Rightarrow> Some (n\<lparr>successor := Some s\<rparr>, net1)
               | Inr sa \<Rightarrow>
                  (case dict_idx s ''port'' of
                    Inl _ \<Rightarrow> Some (n\<lparr>successor := Some s\<rparr>, net1)
                  | Inr sp \<Rightarrow>
                     (case send_request sha1 net1 sa sp (update_predecessor_request n) of
                       None \<Rightarrow> None
                     | Some (_, net2) \<Rightarrow> Some (n\<lparr>successor := Some s\<rparr>, net2)))))
          else Some (n, net1)))"

text \<open>The fields \<^verbatim>\<open>__init__\<close> sets before it joins or seeds the ring.\<close>

definition init_node :: "digest \<Rightarrow> string \<Rightarrow> int \<Rightarrow> node" where
  "init_node sha1 a p =
    \<lparr>ip = a, port = p, node_id = generate_id sha1 a p, data_store = Map.empty,
     predecessor = None, successor = None\<rparr>"

text \<open>A bootstrap node is its own successor (line 26).\<close>

definition bootstrap :: "node \<Rightarrow> node" where
  "bootstrap n = n\<lparr>successor := Some (self_descriptor n)\<rparr>"

text \<open>
  \<^verbatim>\<open>start_server\<close>: \<^verbatim>\<open>bind\<close> succeeds on a free address with a port in
  \<open>1..65535\<close> (port 0 would bind an ephemeral port, not the advertised one);
  otherwise the exception is printed and the process lives on without a listener.
\<close>

definition start_server :: "network \<Rightarrow> node \<Rightarrow> network" where
  "start_server net n =
    (if net (ip n, port n) = None \<and> 0 < port n \<and> port n \<le> 65535
     then net((ip n, port n) \<mapsto> n) else net)"

text \<open>
  \<^verbatim>\<open>ChordNode(ip, port, bootstrap_ip, bootstrap_port)\<close>: join when both
  bootstrap values are truthy, else seed a one-node ring; then listen.
\<close>

definition start_node :: "digest \<Rightarrow> network \<Rightarrow> string \<Rightarrow> int \<Rightarrow> (string \<times> int) option \<Rightarrow> network option" where
  "start_node sha1 net a p boot =
    (let n0 = init_node sha1 a p in
     case (case boot of
             Some (bip, bport) \<Rightarrow>
               if bip \<noteq> [] \<and> bport \<noteq> 0 then join sha1 net n0 bip bport else Some (bootstrap n0, net)
           | None \<Rightarrow> Some (bootstrap n0, net)) of
       None \<Rightarrow> None
     | Some (n, net') \<Rightarrow> Some (start_server net' n))"

inductive net_step :: "digest \<Rightarrow> network \<Rightarrow> network \<Rightarrow> bool" for sha1 where
  start: "start_node sha1 net a p boot = Some net' \<Longrightarrow> net_step sha1 net net'"
| request: "send_request sha1 net a p req = Some (r, net') \<Longrightarrow> net_step sha1 net net'"

inductive reachable :: "digest \<Rightarrow> network \<Rightarrow> bool" for sha1 where
  empty: "reachable sha1 Map.empty"
| step: "reachable sha1 net \<Longrightarrow> net_step sha1 net net' \<Longrightarrow> reachable sha1 net'"

text \<open>
  The invariant of every reachable network.  A node is listed under its own
  address, its identifier is \<open>generate_id\<close> of that address, and its successor
  is unset or the descriptor of a \<^emph>\<open>root\<close>: a listening node that is its own
  successor.  No handler ever writes a successor, so the joins that build a network
  only ever point new nodes at roots: the nodes form stars around bootstrap nodes.
\<close>

definition node_frame :: "node \<Rightarrow> node \<Rightarrow> bool" where
  "node_frame n n' \<longleftrightarrow>
     ip n' = ip n \<and> port n' = port n \<and> node_id n' = node_id n \<and> successor n' = successor n"

definition keeps_topology :: "network \<Rightarrow> network \<Rightarrow> bool" where
  "keeps_topology net net' \<longleftrightarrow>
     dom net' = dom net \<and> (\<forall>ad n n'. net ad = Some n \<longrightarrow> net' ad = Some n' \<longrightarrow> node_frame n n')"

definition root_node :: "node \<Rightarrow> bool" where
  "root_node r \<longleftrightarrow> successor r = Some (self_descriptor r)"

definition star_inv :: "digest \<Rightarrow> network \<Rightarrow> bool" where
  "star_inv sha1 net \<longleftrightarrow> (\<forall>ad n. net ad = Some n \<longrightarrow>
      ad = (ip n, port n) \<and> node_id n = generate_id sha1 (ip n) (port n) \<and>
      0 < port n \<and> port n \<le> 65535 \<and>
      (successor n = None \<or>
       (\<exists>r. net (ip r, port r) = Some r \<and> root_node r \<and> successor n = Some (self_descriptor r))))"

definition lookup_answer :: "network \<Rightarrow> json \<Rightarrow> bool" where
  "lookup_answer net resp \<longleftrightarrow>
     (\<exists>m. resp = error_dict m) \<or>
     (\<exists>r. net (ip r, port r) = Some r \<and> root_node r \<and> resp = success_successor (self_descriptor r))"

text \<open>What a join leaves: the node's successor is unset or a root that still listens.\<close>

definition joined_well :: "network \<Rightarrow> node \<Rightarrow> node \<Rightarrow> bool" where
  "joined_well net n n' \<longleftrightarrow>
     ip n' = ip n \<and> port n' = port n \<and> node_id n' = node_id n \<and>
     (successor n' = successor n \<or>
      (\<exists>r. net (ip r, port r) = Some r \<and> root_node r \<and> successor n' = Some (self_descriptor r)))"

text \<open>
  A set of (address, request) pairs on which every node relays to another pair of
  the set without answering: a lookup entering it is forwarded forever.
\<close>

definition relay_closed :: "digest \<Rightarrow> network \<Rightarrow> (json \<times> json \<times> json) set \<Rightarrow> bool" where
  "relay_closed sha1 net S \<longleftrightarrow>
     (\<forall>(a, p, req) \<in> S. \<exists>ad n a' p' req'.
        connect_addr a p = Inr ad \<and> net ad = Some n \<and>
        handle_request sha1 n (Some req) = Some (Relay a' p' req', n) \<and> (a', p', req') \<in> S)"

inductive_cases net_stepE: "net_step sha1 net net'"

subsection \<open>Topology frame of a request\<close>

lemma node_frame_refl [simp]: "node_frame n n"
  by (simp add: node_frame_def)

lemma keeps_topology_refl [simp]: "keeps_topology net net"
  by (simp add: keeps_topology_def)

lemma keeps_topology_trans:
  assumes ab: "keeps_topology a b" and bc: "keeps_topology b c"
  shows "keeps_topology a c"
  unfolding keeps_topology_def
proof (intro conjI allI impI)
  show "dom c = dom a" using ab bc by (simp add: keeps_topology_def)
  fix ad n n'
  assume an: "a ad = Some n" and cn: "c ad = Some n'"
  from an ab obtain m where bm: "b ad = Some m"
    unfolding keeps_topology_def by (metis domD domI)
  from ab an bm have "node_frame n m" unfolding keeps_topology_def by blast
  moreover from bc bm cn have "node_frame m n'" unfolding keeps_topology_def by blast
  ultimately show "node_frame n n'" by (simp add: node_frame_def)
qed

lemma process_request_frame:
  "process_request sha1 n req = Inr (h, n') \<Longrightarrow> node_frame n n'"
  by (auto simp: process_request_def store_step_def update_predecessor_def node_frame_def
           split: sum.splits if_splits)

lemma handle_request_keeps:
  "net ad = Some n \<Longrightarrow> handle_request sha1 n d = Some (h, n') \<Longrightarrow> keeps_topology net (net(ad \<mapsto> n'))"
  by (auto simp: handle_request_def keeps_topology_def dest!: process_request_frame split: option.splits sum.splits)

lemma send_request_keeps_topology:
  assumes "send_request sha1 net a p req = Some y"
  shows "keeps_topology net (snd y)"
  apply (rule send_request.raw_induct [where P = "\<lambda>s nt a p rq y. keeps_topology nt (snd y)", OF _ assms])
  apply (auto split: sum.splits option.splits handled.splits prod.splits
              intro: keeps_topology_trans[OF handle_request_keeps])
  done

lemma handle_find_successor_request [simp]:
  "handle_request sha1 n (Some (find_successor_request x)) =
     (case find_successor n x of Inl _ \<Rightarrow> None | Inr h \<Rightarrow> Some (h, n))"
  by (simp add: handle_request_def split: sum.split)

lemma connect_addr_valid [simp]:
  "0 \<le> p \<Longrightarrow> p \<le> 65535 \<Longrightarrow> connect_addr (JStr a) (JInt p) = Inr (a, p)"
  by (simp add: connect_addr_def)

subsection \<open>Lookups in a star network terminate within two hops\<close>

lemma star_invD:
  assumes "star_inv sha1 net" "net ad = Some n"
  shows "ad = (ip n, port n)" "node_id n = generate_id sha1 (ip n) (port n)"
    "0 < port n" "port n \<le> 65535"
    "successor n = None \<or>
       (\<exists>r. net (ip r, port r) = Some r \<and> root_node r \<and> successor n = Some (self_descriptor r))"
  using assms unfolding star_inv_def by blast+

lemma root_find_successor:
  "root_node r \<Longrightarrow> find_successor r x = Inr (Respond (success_successor (self_descriptor r)))"
  by (simp add: root_node_def find_successor_def get_successor_def self_descriptor_def)

lemma send_find_successor_root:
  assumes inv: "star_inv sha1 net" and r: "net (ip r, port r) = Some r" and root: "root_node r"
  shows "send_request sha1 net (JStr (ip r)) (JInt (port r)) (find_successor_request x) =
           Some (success_successor (self_descriptor r), net)"
proof -
  from star_invD(3,4)[OF inv r] have "connect_addr (JStr (ip r)) (JInt (port r)) = Inr (ip r, port r)"
    by simp
  with r root show ?thesis
    by (subst send_request.simps) (simp add: root_find_successor fun_upd_idem)
qed

lemma find_successor_to_root:
  assumes sn: "successor n = Some (self_descriptor r)"
  shows "(\<exists>e. find_successor n x = Inl e) \<or>
         find_successor n x = Inr (Respond (success_successor (self_descriptor r))) \<or>
         find_successor n x = Inr (Relay (JStr (ip r)) (JInt (port r)) (find_successor_request x))"
proof (cases "node_id r = node_id n")
  case True
  with sn show ?thesis
    by (simp add: find_successor_self_id self_descriptor_def)
next
  case False
  with sn have "find_successor n x =
     (case py_chain_lt_le (JInt (node_id n)) x (JInt (node_id r)) of
        Inl e \<Rightarrow> Inl e
      | Inr True \<Rightarrow> Inr (Respond (success_successor (self_descriptor r)))
      | Inr False \<Rightarrow> Inr (Relay (JStr (ip r)) (JInt (port r)) (find_successor_request x)))"
    by (auto simp: find_successor_descr self_descriptor_def split: sum.split bool.split)
  then show ?thesis
    by (auto split: sum.splits bool.splits)
qed

lemma lookup_answer_error [simp]: "lookup_answer net (error_dict m)"
  by (auto simp: lookup_answer_def)

lemma send_find_successor_answer:
  assumes inv: "star_inv sha1 net"
  shows "\<exists>resp. send_request sha1 net a p (find_successor_request x) = Some (resp, net) \<and>
                lookup_answer net resp"
proof (cases "connect_addr a p")
  case (Inl e)
  then show ?thesis by (subst send_request.simps) simp
next
  case (Inr ad)
  note conn = this
  show ?thesis
  proof (cases "net ad")
    case None
    with conn show ?thesis by (subst send_request.simps) simp
  next
    case (Some n)
    note at = this
    have upd: "net(ad \<mapsto> n) = net" using at by (simp add: fun_upd_idem)
    from star_invD(5)[OF inv at] show ?thesis
    proof
      assume "successor n = None"
      then obtain e where "find_successor n x = Inl e" using find_successor_unset by blast
      with conn at show ?thesis by (subst send_request.simps) simp
    next
      assume "\<exists>r. net (ip r, port r) = Some r \<and> root_node r \<and> successor n = Some (self_descriptor r)"
      then obtain r where r: "net (ip r, port r) = Some r" and root: "root_node r"
        and sn: "successor n = Some (self_descriptor r)" by blast
      have ans: "lookup_answer net (success_successor (self_descriptor r))"
        using r root by (auto simp: lookup_answer_def)
      from find_successor_to_root[OF sn, of x] show ?thesis
      proof (elim disjE exE)
        fix e assume "find_successor n x = Inl e"
        with conn at show ?thesis by (subst send_request.simps) simp
      next
        assume "find_successor n x = Inr (Respond (success_successor (self_descriptor r)))"
        with conn at upd ans show ?thesis by (subst send_request.simps) simp
      next
        assume "find_successor n x = Inr (Relay (JStr (ip r)) (JInt (port r)) (find_successor_request x))"
        with conn at upd ans send_find_successor_root[OF inv r root] show ?thesis
          by (subst send_request.simps) simp
      qed
    qed
  qed
qed

subsection \<open>Every step keeps the star invariant\<close>

lemma star_inv_empty: "star_inv sha1 Map.empty"
  by (simp add: star_inv_def)

lemma root_node_frame:
  "root_node r \<Longrightarrow> node_frame r r' \<Longrightarrow> root_node r' \<and> self_descriptor r' = self_descriptor r"
  by (simp add: root_node_def node_frame_def self_descriptor_def)

lemma keeps_topology_back:
  assumes "keeps_topology net net'" "net' ad = Some n'"
  shows "\<exists>n. net ad = Some n \<and> node_frame n n'"
proof -
  from assms(2) have "ad \<in> dom net'" by (rule domI)
  with assms(1) have "ad \<in> dom net" by (simp add: keeps_topology_def)
  then obtain n where "net ad = Some n" by blast
  with assms show ?thesis unfolding keeps_topology_def by blast
qed

lemma keeps_topology_fwd:
  assumes "keeps_topology net net'" "net ad = Some n"
  shows "\<exists>n'. net' ad = Some n' \<and> node_frame n n'"
proof -
  from assms(2) have "ad \<in> dom net" by (rule domI)
  with assms(1) have "ad \<in> dom net'" by (simp add: keeps_topology_def)
  then obtain n' where "net' ad = Some n'" by blast
  with assms show ?thesis unfolding keeps_topology_def by blast
qed

lemma star_inv_keeps:
  assumes inv: "star_inv sha1 net" and kt: "keeps_topology net net'"
  shows "star_inv sha1 net'"
  unfolding star_inv_def
proof (intro allI impI)
  fix ad n'
  assume at': "net' ad = Some n'"
  from keeps_topology_back[OF kt at'] obtain n where at: "net ad = Some n" and fr: "node_frame n n'"
    by blast
  have root': "\<exists>r'. net' (ip r', port r') = Some r' \<and> root_node r' \<and> self_descriptor r' = self_descriptor r"
    if "net (ip r, port r) = Some r" "root_node r" for r
  proof -
    from keeps_topology_fwd[OF kt that(1)] obtain r' where
      r': "net' (ip r, port r) = Some r'" and fr': "node_frame r r'"
      by blast
    from root_node_frame[OF that(2) fr'] have "root_node r'" "self_descriptor r' = self_descriptor r"
      by simp_all
    moreover from fr' have "ip r' = ip r" "port r' = port r"
      by (simp_all add: node_frame_def)
    ultimately show ?thesis
      using r' by (intro exI[of _ r'] conjI) simp_all
  qed
  from fr have eq: "ip n' = ip n" "port n' = port n" "node_id n' = node_id n" "successor n' = successor n"
    by (simp_all add: node_frame_def)
  have succ: "successor n' = None \<or>
      (\<exists>r. net' (ip r, port r) = Some r \<and> root_node r \<and> successor n' = Some (self_descriptor r))"
    using star_invD(5)[OF inv at]
  proof (elim disjE exE conjE)
    assume "successor n = None"
    with eq(4) show ?thesis by simp
  next
    fix r
    assume r: "net (ip r, port r) = Some r" "root_node r" "successor n = Some (self_descriptor r)"
    from root'[OF r(1,2)] obtain r' where "net' (ip r', port r') = Some r'" "root_node r'"
      "self_descriptor r' = self_descriptor r" by blast
    with eq(4) r(3) show ?thesis by auto
  qed
  from star_invD(1-4)[OF inv at] eq succ
  show "ad = (ip n', port n') \<and> node_id n' = generate_id sha1 (ip n') (port n') \<and>
      0 < port n' \<and> port n' \<le> 65535 \<and>
      (successor n' = None \<or>
       (\<exists>r. net' (ip r, port r) = Some r \<and> root_node r \<and> successor n' = Some (self_descriptor r)))"
    by simp
qed

lemma star_inv_add:
  assumes inv: "star_inv sha1 net" and free: "net (ip n, port n) = None"
    and range: "0 < port n" "port n \<le> 65535" and nid: "node_id n = generate_id sha1 (ip n) (port n)"
    and sn: "successor n = None \<or> root_node n \<or>
             (\<exists>r. net (ip r, port r) = Some r \<and> root_node r \<and> successor n = Some (self_descriptor r))"
  shows "star_inv sha1 (net((ip n, port n) \<mapsto> n))"
  unfolding star_inv_def
proof (intro allI impI)
  fix ad m
  assume at: "(net((ip n, port n) \<mapsto> n)) ad = Some m"
  have keep: "(net((ip n, port n) \<mapsto> n)) (ip r, port r) = Some r" if "net (ip r, port r) = Some r" for r
    using that free by (auto split: if_splits)
  show "ad = (ip m, port m) \<and> node_id m = generate_id sha1 (ip m) (port m) \<and>
      0 < port m \<and> port m \<le> 65535 \<and>
      (successor m = None \<or>
       (\<exists>r. (net((ip n, port n) \<mapsto> n)) (ip r, port r) = Some r \<and> root_node r \<and>
            successor m = Some (self_descriptor r)))"
  proof (cases "ad = (ip n, port n)")
    case True
    with at have mn: "m = n" by simp
    have "successor n = None \<or>
       (\<exists>r. (net((ip n, port n) \<mapsto> n)) (ip r, port r) = Some r \<and> root_node r \<and>
            successor n = Some (self_descriptor r))"
      using sn
    proof (elim disjE)
      assume "root_node n"
      then show ?thesis by (auto simp: root_node_def)
    qed (use keep in blast)+
    with True range nid mn show ?thesis by simp
  next
    case False
    with at have "net ad = Some m" by simp
    from star_invD[OF inv this] keep show ?thesis by blast
  qed
qed

lemma send_request_same_dom:
  "send_request sha1 net a p req = Some (r, net') \<Longrightarrow> dom net' = dom net"
  using send_request_keeps_topology[of sha1 net a p req "(r, net')"] by (simp add: keeps_topology_def)

lemma root_survives:
  assumes kt: "keeps_topology net net'" and r: "net (ip r, port r) = Some r" and root: "root_node r"
  shows "\<exists>r'. net' (ip r', port r') = Some r' \<and> root_node r' \<and> self_descriptor r' = self_descriptor r"
proof -
  from keeps_topology_fwd[OF kt r] obtain r' where
    r': "net' (ip r, port r) = Some r'" and fr': "node_frame r r'"
    by blast
  from root_node_frame[OF root fr'] have "root_node r'" "self_descriptor r' = self_descriptor r"
    by simp_all
  moreover from fr' have "ip r' = ip r" "port r' = port r"
    by (simp_all add: node_frame_def)
  ultimately show ?thesis
    using r' by (intro exI[of _ r'] conjI) simp_all
qed

lemma join_star:
  assumes inv: "star_inv sha1 net" and j: "join sha1 net n bip bport = Some (n', net')"
  shows "keeps_topology net net' \<and> joined_well net' n n'"
proof -
  obtain resp where snd1: "send_request sha1 net (JStr bip) (JInt bport)
      (find_successor_request (JInt (node_id n))) = Some (resp, net)" and ans: "lookup_answer net resp"
    using send_find_successor_answer[OF inv] by blast
  from ans show ?thesis
    unfolding lookup_answer_def
  proof (elim disjE exE conjE)
    fix m
    assume "resp = error_dict m"
    with j snd1 have "n' = n" "net' = net" by (simp_all add: join_def)
    then show ?thesis by (simp add: joined_well_def)
  next
    fix r
    assume r: "net (ip r, port r) = Some r" and root: "root_node r"
      and resp: "resp = success_successor (self_descriptor r)"
    from j snd1 resp obtain y where
      snd2: "send_request sha1 net (JStr (ip r)) (JInt (port r)) (update_predecessor_request n) = Some (y, net')"
      and n': "n' = n\<lparr>successor := Some (self_descriptor r)\<rparr>"
      by (auto simp: join_def self_descriptor_def split: option.splits)
    from send_request_keeps_topology[OF snd2] have kt: "keeps_topology net net'" by simp
    from root_survives[OF kt r root] obtain r' where
      "net' (ip r', port r') = Some r'" "root_node r'" "self_descriptor r' = self_descriptor r"
      by blast
    with kt n' show ?thesis
      unfolding joined_well_def by (intro conjI; simp) metis
  qed
qed

lemma bootstrap_root: "root_node (bootstrap n)"
  by (simp add: root_node_def bootstrap_def self_descriptor_def)

lemma init_node_fields [simp]:
  "ip (init_node sha1 a p) = a" "port (init_node sha1 a p) = p"
  "node_id (init_node sha1 a p) = generate_id sha1 a p" "successor (init_node sha1 a p) = None"
  by (simp_all add: init_node_def)

lemma boot_or_join_star:
  assumes inv: "star_inv sha1 net"
    and pre: "(case boot of
             Some (bip, bport) \<Rightarrow>
               if bip \<noteq> [] \<and> bport \<noteq> 0 then join sha1 net (init_node sha1 a p) bip bport
               else Some (bootstrap (init_node sha1 a p), net)
           | None \<Rightarrow> Some (bootstrap (init_node sha1 a p), net)) = Some (n, net1)"
  shows "star_inv sha1 net1 \<and> ip n = a \<and> port n = p \<and> node_id n = generate_id sha1 a p \<and>
         (successor n = None \<or> root_node n \<or>
          (\<exists>r. net1 (ip r, port r) = Some r \<and> root_node r \<and> successor n = Some (self_descriptor r)))"
proof -
  have "(keeps_topology net net1 \<and> joined_well net1 (init_node sha1 a p) n) \<or>
        (net1 = net \<and> n = bootstrap (init_node sha1 a p))"
    using pre join_star[OF inv] by (auto split: option.splits if_splits)
  then show ?thesis
  proof
    assume "keeps_topology net net1 \<and> joined_well net1 (init_node sha1 a p) n"
    with star_inv_keeps[OF inv] show ?thesis by (auto simp: joined_well_def)
  next
    assume "net1 = net \<and> n = bootstrap (init_node sha1 a p)"
    with inv bootstrap_root show ?thesis by (simp add: bootstrap_def)
  qed
qed

lemma start_node_star:
  assumes inv: "star_inv sha1 net" and st: "start_node sha1 net a p boot = Some net'"
  shows "star_inv sha1 net'"
proof -
  obtain n net1 where
    pre: "(case boot of
             Some (bip, bport) \<Rightarrow>
               if bip \<noteq> [] \<and> bport \<noteq> 0 then join sha1 net (init_node sha1 a p) bip bport
               else Some (bootstrap (init_node sha1 a p), net)
           | None \<Rightarrow> Some (bootstrap (init_node sha1 a p), net)) = Some (n, net1)"
    and net': "net' = start_server net1 n"
    using st by (auto simp: start_node_def Let_def split: option.splits)
  from boot_or_join_star[OF inv pre] have inv1: "star_inv sha1 net1"
    and nid: "node_id n = generate_id sha1 (ip n) (port n)"
    and sn: "successor n = None \<or> root_node n \<or>
          (\<exists>r. net1 (ip r, port r) = Some r \<and> root_node r \<and> successor n = Some (self_descriptor r))"
    by auto
  show ?thesis
  proof (cases "net1 (ip n, port n) = None \<and> 0 < port n \<and> port n \<le> 65535")
    case True
    with net' have "net' = net1((ip n, port n) \<mapsto> n)" by (simp add: start_server_def)
    with True star_inv_add[OF inv1 _ _ _ nid sn] show ?thesis by simp
  next
    case False
    with net' inv1 show ?thesis by (simp add: start_server_def)
  qed
qed

lemma net_step_star:
  "net_step sha1 net net' \<Longrightarrow> star_inv sha1 net \<Longrightarrow> star_inv sha1 net'"
proof (induction rule: net_step.induct)
  case (start net a p boot net')
  then show ?case by (rule start_node_star[rotated])
next
  case (request net a p req r net')
  from send_request_keeps_topology[OF request.hyps] request.prems show ?case
    by (simp add: star_inv_keeps)
qed

lemma reachable_star_inv:
  "reachable sha1 net \<Longrightarrow> star_inv sha1 net"
proof (induction rule: reachable.induct)
  case empty
  show ?case by (rule star_inv_empty)
next
  case (step net net')
  then show ?case by (blast intro: net_step_star)
qed

subsection \<open>Routing outcomes\<close>

lemma find_successor_relay:
  assumes "successor n = Some (self_descriptor m)" "node_id m \<noteq> node_id n"
    "py_num x = Some v" "\<not> (node_id n < v \<and> v \<le> node_id m)"
  shows "handle_request sha1 n (Some (find_successor_request x)) =
           Some (Relay (JStr (ip m)) (JInt (port m)) (find_successor_request x), n)"
  using assms by (simp add: find_successor_descr self_descriptor_def py_chain_lt_le_num split: bool.split)

lemma find_successor_to_root_num:
  assumes sn: "successor n = Some (self_descriptor r)" and x: "py_num x = Some v"
  shows "find_successor n x = Inr (Respond (success_successor (self_descriptor r))) \<or>
         find_successor n x = Inr (Relay (JStr (ip r)) (JInt (port r)) (find_successor_request x))"
proof (cases "node_id r = node_id n")
  case True
  with sn show ?thesis by (simp add: find_successor_self_id self_descriptor_def)
next
  case False
  with sn x show ?thesis
    by (simp add: find_successor_descr self_descriptor_def py_chain_lt_le_num split: bool.split)
qed

text \<open>A lookup for a number at a joined node of a star network answers its root.\<close>

lemma send_find_successor_via:
  assumes inv: "star_inv sha1 net" and at: "net (bip, bport) = Some b"
    and sb: "successor b = Some (self_descriptor r)" and r: "net (ip r, port r) = Some r"
    and root: "root_node r" and x: "py_num x = Some v"
  shows "send_request sha1 net (JStr bip) (JInt bport) (find_successor_request x) =
           Some (success_successor (self_descriptor r), net)"
proof -
  from star_invD(1,3,4)[OF inv at] have conn: "connect_addr (JStr bip) (JInt bport) = Inr (bip, bport)"
    by simp
  have upd: "net((bip, bport) \<mapsto> b) = net" using at by (simp add: fun_upd_idem)
  from find_successor_to_root_num[OF sb x] show ?thesis
  proof
    assume "find_successor b x = Inr (Respond (success_successor (self_descriptor r)))"
    with conn at upd show ?thesis by (subst send_request.simps) simp
  next
    assume "find_successor b x = Inr (Relay (JStr (ip r)) (JInt (port r)) (find_successor_request x))"
    with conn at upd send_find_successor_root[OF inv r root] show ?thesis
      by (subst send_request.simps) simp
  qed
qed

lemma process_update_predecessor_request [simp]:
  "process_request sha1 r (update_predecessor_request m) =
     Inr (Respond (JObj [(''status'', JStr ''success''), (''message'', JStr ''Predecessor updated'')]),
          r\<lparr>predecessor := Some (self_descriptor m)\<rparr>)"
  by (simp add: process_request_def update_predecessor_request_def dict_get_def dict_idx_def
                update_predecessor_def self_descriptor_def)

lemma send_update_predecessor:
  assumes "net (ip r, port r) = Some r" "0 \<le> port r" "port r \<le> 65535"
  shows "send_request sha1 net (JStr (ip r)) (JInt (port r)) (update_predecessor_request m) =
           Some (JObj [(''status'', JStr ''success''), (''message'', JStr ''Predecessor updated'')],
                 net((ip r, port r) \<mapsto> r\<lparr>predecessor := Some (self_descriptor m)\<rparr>))"
  using assms by (subst send_request.simps) (simp add: handle_request_def)

lemma relay_closed_no_answer:
  assumes cl: "relay_closed sha1 net S" and ret: "send_request sha1 net a p req = Some y"
  shows "(a, p, req) \<notin> S"
proof -
  have "s = sha1 \<longrightarrow> nt = net \<longrightarrow> (a, p, req) \<notin> S"
    if "send_request s nt a p req = Some y" for s nt a p req y
    apply (rule send_request.raw_induct
        [where P = "\<lambda>s nt a p rq y. s = sha1 \<longrightarrow> nt = net \<longrightarrow> (a, p, rq) \<notin> S", OF _ that])
    using cl unfolding relay_closed_def
    apply (fastforce simp: fun_upd_idem)
    done
  with ret show ?thesis by blast
qed

lemma relay_closed_diverges:
  "relay_closed sha1 net S \<Longrightarrow> (a, p, req) \<in> S \<Longrightarrow> send_request sha1 net a p req = None"
  using relay_closed_no_answer by (cases "send_request sha1 net a p req") blast+

text \<open>Two listening nodes that are each other's successor and both forward \<open>v\<close>.\<close>

lemma two_cycle_diverges:
  assumes A: "net (ip A, port A) = Some A" and B: "net (ip B, port B) = Some B"
    and ports: "0 \<le> port A" "port A \<le> 65535" "0 \<le> port B" "port B \<le> 65535"
    and sA: "successor A = Some (self_descriptor B)" and sB: "successor B = Some (self_descriptor A)"
    and ne: "node_id A \<noteq> node_id B" and x: "py_num x = Some v"
    and outA: "\<not> (node_id A < v \<and> v \<le> node_id B)" and outB: "\<not> (node_id B < v \<and> v \<le> node_id A)"
  shows "send_request sha1 net (JStr (ip A)) (JInt (port A)) (find_successor_request x) = None"
proof (rule relay_closed_diverges)
  let ?S = "{(JStr (ip A), JInt (port A), find_successor_request x),
             (JStr (ip B), JInt (port B), find_successor_request x)}"
  have hA: "handle_request sha1 A (Some (find_successor_request x)) =
      Some (Relay (JStr (ip B)) (JInt (port B)) (find_successor_request x), A)"
    using find_successor_relay[OF sA _ x outA] ne by simp
  have hB: "handle_request sha1 B (Some (find_successor_request x)) =
      Some (Relay (JStr (ip A)) (JInt (port A)) (find_successor_request x), B)"
    using find_successor_relay[OF sB _ x outB] ne by simp
  show "relay_closed sha1 net ?S"
    unfolding relay_closed_def using A B ports hA hB by auto
  show "(JStr (ip A), JInt (port A), find_successor_request x) \<in> ?S" by simp
qed

subsection \<open>The two outcomes of a join\<close>

lemma join_success:
  assumes inv: "star_inv sha1 net" and at: "net (bip, bport) = Some b"
    and sb: "successor b = Some (self_descriptor r)" and r: "net (ip r, port r) = Some r"
    and root: "root_node r"
  shows "join sha1 net n bip bport =
           Some (n\<lparr>successor := Some (self_descriptor r)\<rparr>,
                 net((ip r, port r) \<mapsto> r\<lparr>predecessor := Some (self_descriptor n)\<rparr>))"
proof -
  have look: "send_request sha1 net (JStr bip) (JInt bport) (find_successor_request (JInt (node_id n))) =
      Some (success_successor (self_descriptor r), net)"
    by (rule send_find_successor_via[OF inv at sb r root]) simp
  from star_invD(3,4)[OF inv r] have "0 \<le> port r" "port r \<le> 65535" by simp_all
  from send_update_predecessor[of net r, OF r this] look show ?thesis
    by (simp add: join_def self_descriptor_def)
qed

lemma send_request_no_listener:
  assumes "net (h, q) = None"
  shows "\<exists>m. send_request sha1 net (JStr h) (JInt q) req = Some (error_dict m, net)"
  using assms by (subst send_request.simps) (auto simp: connect_addr_def split: sum.split)

lemma join_no_listener:
  assumes "net (bip, bport) = None"
  shows "join sha1 net n bip bport = Some (n, net)"
proof -
  from send_request_no_listener[of net bip bport, OF assms] obtain m where
    "send_request sha1 net (JStr bip) (JInt bport) (find_successor_request (JInt (node_id n))) =
       Some (error_dict m, net)"
    by blast
  then show ?thesis by (simp add: join_def)
qed

lemma send_find_successor_unjoined:
  assumes "net (h, q) = Some n" "successor n = None" "0 \<le> q" "q \<le> 65535"
  shows "send_request sha1 net (JStr h) (JInt q) (find_successor_request x) =
           Some (error_dict ''Expecting value: line 1 column 1 (char 0)'', net)"
proof -
  from find_successor_unset[OF assms(2)] obtain e where "find_successor n x = Inl e" by blast
  with assms show ?thesis by (subst send_request.simps) simp
qed

subsection \<open>Properties of the ring\<close>

text \<open>A one-node network built by the startup code, with the string length as digest.\<close>

lemma demo_start:
  "start_node (\<lambda>s. length s) Map.empty ''10.0.0.1'' 5000 None =
     Some [(''10.0.0.1'', 5000) \<mapsto> bootstrap (init_node (\<lambda>s. length s) ''10.0.0.1'' 5000)]"
  by (simp add: start_node_def start_server_def bootstrap_def init_node_def)

text \<open>
  C1. In every network that node starts and client requests build, a
  \<^verbatim>\<open>find_successor\<close> request sent to any address returns: it is never forwarded
  forever, it leaves the network unchanged, and its reply is an error dict or the
  success reply naming a listening node that is its own successor.
\<close>

theorem lookup_terminates_reachable:
  assumes "reachable sha1 net"
  shows "\<exists>resp. send_request sha1 net a p (find_successor_request x) = Some (resp, net) \<and>
                lookup_answer net resp"
  using send_find_successor_answer[OF reachable_star_inv[OF assms]] .

theorem lookup_terminates_reachable_witness:
  "reachable (\<lambda>s. length s) [(''10.0.0.1'', 5000) \<mapsto> bootstrap (init_node (\<lambda>s. length s) ''10.0.0.1'' 5000)] \<and>
   (\<exists>resp. send_request (\<lambda>s. length s) [(''10.0.0.1'', 5000) \<mapsto> bootstrap (init_node (\<lambda>s. length s) ''10.0.0.1'' 5000)]
       (JStr ''10.0.0.1'') (JInt 5000) (find_successor_request (JInt 7)) =
      Some (resp, [(''10.0.0.1'', 5000) \<mapsto> bootstrap (init_node (\<lambda>s. length s) ''10.0.0.1'' 5000)]) \<and>
    lookup_answer [(''10.0.0.1'', 5000) \<mapsto> bootstrap (init_node (\<lambda>s. length s) ''10.0.0.1'' 5000)] resp)"
proof -
  have r: "reachable (\<lambda>s. length s) [(''10.0.0.1'', 5000) \<mapsto> bootstrap (init_node (\<lambda>s. length s) ''10.0.0.1'' 5000)]"
    by (rule reachable.step[OF reachable.empty net_step.start[OF demo_start]])
  show ?thesis using r lookup_terminates_reachable[OF r] by blast
qed

text \<open>
  C2. In every reachable network, a node's successor, once set, is the descriptor
  of a listening node whose successor is itself: no successor chain is longer than
  one hop, so a ring of two or more nodes never forms (joins build stars around
  bootstrap nodes).
\<close>

theorem ring_never_forms:
  assumes "reachable sha1 net" "net ad = Some n" "successor n = Some s"
  shows "\<exists>r. net (ip r, port r) = Some r \<and> successor r = Some (self_descriptor r) \<and> s = self_descriptor r"
  using star_invD(5)[OF reachable_star_inv[OF assms(1)] assms(2)] assms(3)
  by (auto simp: root_node_def)

theorem ring_never_forms_witness:
  "\<exists>r. [(''10.0.0.1'', 5000) \<mapsto> bootstrap (init_node (\<lambda>s. length s) ''10.0.0.1'' 5000)] (ip r, port r) = Some r \<and>
       successor r = Some (self_descriptor r) \<and>
       self_descriptor (bootstrap (init_node (\<lambda>s. length s) ''10.0.0.1'' 5000)) = self_descriptor r"
proof -
  have r: "reachable (\<lambda>s. length s) [(''10.0.0.1'', 5000) \<mapsto> bootstrap (init_node (\<lambda>s. length s) ''10.0.0.1'' 5000)]"
    by (rule reachable.step[OF reachable.empty net_step.start[OF demo_start]])
  show ?thesis
    by (rule ring_never_forms[OF r, of "(''10.0.0.1'', 5000)" "bootstrap (init_node (\<lambda>s. length s) ''10.0.0.1'' 5000)"])
       (simp_all add: bootstrap_def)
qed

text \<open>
  C3. In the two-node ring of the specification's scenario (ids \<open>A < B\<close>, each the
  other's successor), a lookup sent to \<open>A\<close> for a number outside \<open>(A, B]\<close>, in
  particular any target \<open>\<le> A\<close>, is forwarded between the two nodes forever: the
  plain numeric interval test never matches at the wrap-around.
\<close>

theorem two_node_ring_diverges:
  assumes A: "net (ip A, port A) = Some A" and B: "net (ip B, port B) = Some B"
    and ports: "0 \<le> port A" "port A \<le> 65535" "0 \<le> port B" "port B \<le> 65535"
    and ids: "node_id A < node_id B"
    and sA: "successor A = Some (self_descriptor B)" and sB: "successor B = Some (self_descriptor A)"
    and x: "py_num x = Some v" and outside: "\<not> (node_id A < v \<and> v \<le> node_id B)"
  shows "send_request sha1 net (JStr (ip A)) (JInt (port A)) (find_successor_request x) = None"
  using two_cycle_diverges[OF A B ports sA sB _ x outside] ids by simp

theorem two_node_ring_diverges_witness:
  "send_request (\<lambda>s. length s)
     [(''a'', 1) \<mapsto> \<lparr>ip = ''a'', port = 1, node_id = 10, data_store = Map.empty, predecessor = None,
                      successor = Some (node_descriptor (JInt 20) (JStr ''b'') (JInt 2))\<rparr>,
      (''b'', 2) \<mapsto> \<lparr>ip = ''b'', port = 2, node_id = 20, data_store = Map.empty, predecessor = None,
                      successor = Some (node_descriptor (JInt 10) (JStr ''a'') (JInt 1))\<rparr>]
     (JStr ''a'') (JInt 1) (find_successor_request (JInt 5)) = None"
  by (rule two_node_ring_diverges[where A = "\<lparr>ip = ''a'', port = 1, node_id = 10, data_store = Map.empty, predecessor = None,
                      successor = Some (node_descriptor (JInt 20) (JStr ''b'') (JInt 2))\<rparr>"
      and B = "\<lparr>ip = ''b'', port = 2, node_id = 20, data_store = Map.empty, predecessor = None,
                      successor = Some (node_descriptor (JInt 10) (JStr ''a'') (JInt 1))\<rparr>" and v = 5,
      simplified]) (simp_all add: self_descriptor_def)

text \<open>
  C4. A node started with the address of a joined node of a reachable network
  takes as successor the descriptor that node holds (which is what its
  \<^verbatim>\<open>find_successor\<close> returns), starts listening, and that successor records the
  new node's descriptor as its predecessor.
\<close>

theorem join_links_new_node:
  assumes reach: "reachable sha1 net" and at: "net (bip, bport) = Some b" and joined: "successor b \<noteq> None"
    and free: "net (a, p) = None" and range: "0 < p" "p \<le> 65535" and bip: "bip \<noteq> []"
  shows "\<exists>r n. successor b = Some (self_descriptor r) \<and> successor n = successor b \<and>
            start_node sha1 net a p (Some (bip, bport)) =
              Some (net((ip r, port r) \<mapsto> r\<lparr>predecessor := Some (self_descriptor n)\<rparr>, (a, p) \<mapsto> n))"
proof -
  have inv: "star_inv sha1 net" using reach by (rule reachable_star_inv)
  from star_invD(1,3,5)[OF inv at] joined obtain r where r: "net (ip r, port r) = Some r"
    and root: "root_node r" and sb: "successor b = Some (self_descriptor r)" and bport: "bport \<noteq> 0"
    by auto
  let ?init = "init_node sha1 a p"
  let ?joined = "?init\<lparr>successor := Some (self_descriptor r)\<rparr>"
  have j: "join sha1 net ?init bip bport =
      Some (?joined, net((ip r, port r) \<mapsto> r\<lparr>predecessor := Some (self_descriptor ?init)\<rparr>))"
    by (rule join_success[OF inv at sb r root])
  have ne: "(a, p) \<noteq> (ip r, port r)" using free r by auto
  let ?net2 = "net((ip r, port r) \<mapsto> r\<lparr>predecessor := Some (self_descriptor ?joined)\<rparr>)"
  have st: "start_node sha1 net a p (Some (bip, bport)) = Some (start_server ?net2 ?joined)"
    using j bip bport by (simp add: start_node_def Let_def)
  have "?net2 (a, p) = None" using free ne by simp
  then have "start_server ?net2 ?joined = ?net2((a, p) \<mapsto> ?joined)"
    using range by (simp add: start_server_def)
  with st have "start_node sha1 net a p (Some (bip, bport)) = Some (?net2((a, p) \<mapsto> ?joined))"
    by simp
  with sb show ?thesis by (intro exI[of _ r] exI[of _ ?joined]) simp
qed

theorem join_links_new_node_witness:
  "\<exists>r n. successor (bootstrap (init_node (\<lambda>s. length s) ''10.0.0.1'' 5000)) = Some (self_descriptor r) \<and> successor n = successor (bootstrap (init_node (\<lambda>s. length s) ''10.0.0.1'' 5000)) \<and>
     start_node (\<lambda>s. length s) [(''10.0.0.1'', 5000) \<mapsto> bootstrap (init_node (\<lambda>s. length s) ''10.0.0.1'' 5000)] ''10.0.0.2'' 5001 (Some (''10.0.0.1'', 5000)) =
       Some ([(''10.0.0.1'', 5000) \<mapsto> bootstrap (init_node (\<lambda>s. length s) ''10.0.0.1'' 5000)]((ip r, port r) \<mapsto> r\<lparr>predecessor := Some (self_descriptor n)\<rparr>, (''10.0.0.2'', 5001) \<mapsto> n))"
proof -
  have r: "reachable (\<lambda>s. length s) [(''10.0.0.1'', 5000) \<mapsto> bootstrap (init_node (\<lambda>s. length s) ''10.0.0.1'' 5000)]"
    by (rule reachable.step[OF reachable.empty net_step.start[OF demo_start]])
  show ?thesis
    by (rule join_links_new_node[OF r, of "''10.0.0.1''" 5000 "bootstrap (init_node (\<lambda>s. length s) ''10.0.0.1'' 5000)"]) (simp_all add: bootstrap_def)
qed

text \<open>
  C5. A node started without a bootstrap address is its own successor and answers
  every \<^verbatim>\<open>find_successor\<close> request, whatever its target, with its own descriptor.
\<close>

theorem single_node_ring:
  assumes "0 < p" "p \<le> 65535"
  shows "start_node sha1 Map.empty a p None = Some [(a, p) \<mapsto> bootstrap (init_node sha1 a p)] \<and>
         successor (bootstrap (init_node sha1 a p)) = Some (self_descriptor (bootstrap (init_node sha1 a p))) \<and>
         (\<forall>x. send_request sha1 [(a, p) \<mapsto> bootstrap (init_node sha1 a p)] (JStr a) (JInt p) (find_successor_request x) =
               Some (success_successor (self_descriptor (bootstrap (init_node sha1 a p))),
                     [(a, p) \<mapsto> bootstrap (init_node sha1 a p)]))"
proof (intro conjI allI)
  show "start_node sha1 Map.empty a p None = Some [(a, p) \<mapsto> bootstrap (init_node sha1 a p)]"
    using assms by (simp add: start_node_def start_server_def bootstrap_def Let_def)
  have root: "root_node (bootstrap (init_node sha1 a p))" by (rule bootstrap_root)
  then show "successor (bootstrap (init_node sha1 a p)) = Some (self_descriptor (bootstrap (init_node sha1 a p)))"
    by (simp add: root_node_def)
  fix x
  from root have "find_successor (bootstrap (init_node sha1 a p)) x =
      Inr (Respond (success_successor (self_descriptor (bootstrap (init_node sha1 a p)))))"
    by (rule root_find_successor)
  with assms show "send_request sha1 [(a, p) \<mapsto> bootstrap (init_node sha1 a p)] (JStr a) (JInt p) (find_successor_request x) =
      Some (success_successor (self_descriptor (bootstrap (init_node sha1 a p))), [(a, p) \<mapsto> bootstrap (init_node sha1 a p)])"
    by (subst send_request.simps) (simp add: bootstrap_def)
qed

theorem single_node_ring_witness:
  "start_node (\<lambda>s. length s) Map.empty ''10.0.0.1'' 5000 None = Some [(''10.0.0.1'', 5000) \<mapsto> bootstrap (init_node (\<lambda>s. length s) ''10.0.0.1'' 5000)] \<and>
   successor (bootstrap (init_node (\<lambda>s. length s) ''10.0.0.1'' 5000)) = Some (self_descriptor (bootstrap (init_node (\<lambda>s. length s) ''10.0.0.1'' 5000))) \<and>
   (\<forall>x. send_request (\<lambda>s. length s) [(''10.0.0.1'', 5000) \<mapsto> bootstrap (init_node (\<lambda>s. length s) ''10.0.0.1'' 5000)] (JStr ''10.0.0.1'') (JInt 5000) (find_successor_request x) =
          Some (success_successor (self_descriptor (bootstrap (init_node (\<lambda>s. length s) ''10.0.0.1'' 5000))), [(''10.0.0.1'', 5000) \<mapsto> bootstrap (init_node (\<lambda>s. length s) ''10.0.0.1'' 5000)]))"
  by (rule single_node_ring) simp_all

text \<open>
  C6. A node that joins through an address where nobody listens starts listening
  with no successor: every lookup sent to it closes the connection without a reply,
  which the caller sees as the JSON decoding error.
\<close>

theorem failed_join_leaves_node_unresolved:
  assumes none: "net (bip, bport) = None" and bip: "bip \<noteq> []" "bport \<noteq> 0"
    and free: "net (a, p) = None" and range: "0 < p" "p \<le> 65535"
  shows "start_node sha1 net a p (Some (bip, bport)) = Some (net((a, p) \<mapsto> init_node sha1 a p)) \<and>
         (\<forall>x. send_request sha1 (net((a, p) \<mapsto> init_node sha1 a p)) (JStr a) (JInt p) (find_successor_request x) =
              Some (error_dict ''Expecting value: line 1 column 1 (char 0)'', net((a, p) \<mapsto> init_node sha1 a p)))"
proof (intro conjI allI)
  show "start_node sha1 net a p (Some (bip, bport)) = Some (net((a, p) \<mapsto> init_node sha1 a p))"
    using join_no_listener[of net bip bport sha1 "init_node sha1 a p", OF none] bip free range
    by (simp add: start_node_def start_server_def)
  fix x
  show "send_request sha1 (net((a, p) \<mapsto> init_node sha1 a p)) (JStr a) (JInt p) (find_successor_request x) =
      Some (error_dict ''Expecting value: line 1 column 1 (char 0)'', net((a, p) \<mapsto> init_node sha1 a p))"
    using range
    by (intro send_find_successor_unjoined[of "net((a, p) \<mapsto> init_node sha1 a p)" a p "init_node sha1 a p"]) simp_all
qed

theorem failed_join_leaves_node_unresolved_witness:
  "start_node (\<lambda>s. length s) Map.empty ''10.0.0.2'' 5001 (Some (''10.0.0.1'', 5000)) =
     Some [(''10.0.0.2'', 5001) \<mapsto> init_node (\<lambda>s. length s) ''10.0.0.2'' 5001] \<and>
   (\<forall>x. send_request (\<lambda>s. length s) [(''10.0.0.2'', 5001) \<mapsto> init_node (\<lambda>s. length s) ''10.0.0.2'' 5001]
          (JStr ''10.0.0.2'') (JInt 5001) (find_successor_request x) =
        Some (error_dict ''Expecting value: line 1 column 1 (char 0)'',
              [(''10.0.0.2'', 5001) \<mapsto> init_node (\<lambda>s. length s) ''10.0.0.2'' 5001]))"
  using failed_join_leaves_node_unresolved[of Map.empty "''10.0.0.1''" 5000 "''10.0.0.2''" 5001 "\<lambda>s. length s"]
  by simp

text \<open>
  C21. A join whose lookup succeeds keeps the successor it learned even when announcing
  itself to that successor fails: the reply of \<^verbatim>\<open>update_predecessor\<close> is never
  read, so the joined node points at a successor that never recorded it.
\<close>

theorem join_keeps_unannounced_successor:
  assumes "send_request sha1 net (JStr bip) (JInt bport) (find_successor_request (JInt (node_id n))) =
             Some (success_successor s, net1)"
    and "dict_idx s ''ip'' = Inr sa" "dict_idx s ''port'' = Inr sp"
    and "send_request sha1 net1 sa sp (update_predecessor_request n) = Some (error_dict m, net2)"
  shows "join sha1 net n bip bport = Some (n\<lparr>successor := Some s\<rparr>, net2)"
  using assms by (simp add: join_def)

theorem join_keeps_unannounced_successor_witness:
  "join (\<lambda>s. length s)
     [(''b'', 1) \<mapsto> \<lparr>ip = ''b'', port = 1, node_id = 10, data_store = Map.empty, predecessor = None,
                    successor = Some (node_descriptor (JInt 50) (JStr ''c'') (JInt 3))\<rparr>]
     (init_node (\<lambda>s. length s) ''0123456789'' 1) ''b'' 1 =
   Some (init_node (\<lambda>s. length s) ''0123456789'' 1\<lparr>successor := Some (node_descriptor (JInt 50) (JStr ''c'') (JInt 3))\<rparr>,
         [(''b'', 1) \<mapsto> \<lparr>ip = ''b'', port = 1, node_id = 10, data_store = Map.empty, predecessor = None,
                    successor = Some (node_descriptor (JInt 50) (JStr ''c'') (JInt 3))\<rparr>])"
proof -
  let ?B = "\<lparr>ip = ''b'', port = 1, node_id = 10, data_store = Map.empty, predecessor = None,
              successor = Some (node_descriptor (JInt 50) (JStr ''c'') (JInt 3))\<rparr>"
  let ?n = "init_node (\<lambda>s. length s) ''0123456789'' 1"
  have id: "node_id ?n = 12"
    by (simp add: generate_id_def addr_string_def show_int_def show_nat_def nat_digits.simps)
  have fs: "find_successor ?B (JInt 12) = Inr (Respond (success_successor (node_descriptor (JInt 50) (JStr ''c'') (JInt 3))))"
    by (simp add: find_successor_descr py_chain_lt_le_num)
  have look: "send_request (\<lambda>s. length s) [(''b'', 1) \<mapsto> ?B] (JStr ''b'') (JInt 1)
      (find_successor_request (JInt (node_id ?n))) =
      Some (success_successor (node_descriptor (JInt 50) (JStr ''c'') (JInt 3)), [(''b'', 1) \<mapsto> ?B])"
    unfolding id using fs by (subst send_request.simps) simp
  have ann: "send_request (\<lambda>s. length s) [(''b'', 1) \<mapsto> ?B] (JStr ''c'') (JInt 3) (update_predecessor_request ?n) =
      Some (error_dict ''[Errno 111] Connection refused'', [(''b'', 1) \<mapsto> ?B])"
    by (subst send_request.simps) simp
  show ?thesis
    by (rule join_keeps_unannounced_successor[OF look _ _ ann]) simp_all
qed

text \<open>
  C23. A request sent to an address where no node listens returns the error dict with
  the connection-refused message and changes nothing.
\<close>

theorem no_listener_connection_refused:
  assumes "net (h, q) = None" "0 \<le> q" "q \<le> 65535"
  shows "send_request sha1 net (JStr h) (JInt q) req = Some (error_dict ''[Errno 111] Connection refused'', net)"
  using assms by (subst send_request.simps) simp

theorem no_listener_connection_refused_witness:
  "send_request (\<lambda>s. length s) Map.empty (JStr ''10.0.0.9'') (JInt 5000) (find_successor_request (JInt 1)) =
     Some (error_dict ''[Errno 111] Connection refused'', Map.empty)"
  by (rule no_listener_connection_refused) simp_all

end
