(* ===== verification/Lifecycle.thy ===== *)
theory Lifecycle
  imports Network
begin

text \<open>
  Process lifecycle (\<^verbatim>\<open>signal_handler\<close>, lines 41-43): Ctrl+C calls
  \<^verbatim>\<open>os._exit(0)\<close>, so the node's listener and all its state vanish at once and
  nobody is told.  A run is a sequence of node starts, client requests and such
  exits; \<open>reachable_run\<close> is its closure from the empty network.  A node may later
  be started again at the same address, with the same identifier.
\<close>

definition signal_handler :: "network \<Rightarrow> addr \<Rightarrow> network" where
  "signal_handler net ad = net(ad := None)"

inductive run_step :: "digest \<Rightarrow> network \<Rightarrow> network \<Rightarrow> bool" for sha1 where
  node: "net_step sha1 net net' \<Longrightarrow> run_step sha1 net net'"
| exit: "net ad \<noteq> None \<Longrightarrow> run_step sha1 net (signal_handler net ad)"

inductive reachable_run :: "digest \<Rightarrow> network \<Rightarrow> bool" for sha1 where
  empty: "reachable_run sha1 Map.empty"
| step: "reachable_run sha1 net \<Longrightarrow> run_step sha1 net net' \<Longrightarrow> reachable_run sha1 net'"

subsection \<open>Starting and joining in any network\<close>

lemma send_find_successor_at_root:
  assumes r: "net (ip r, port r) = Some r" and root: "root_node r" and range: "0 \<le> port r" "port r \<le> 65535"
  shows "send_request sha1 net (JStr (ip r)) (JInt (port r)) (find_successor_request x) =
           Some (success_successor (self_descriptor r), net)"
  using r root range by (subst send_request.simps) (simp add: root_find_successor fun_upd_idem)

lemma join_via_root:
  assumes r: "net (ip r, port r) = Some r" and root: "root_node r" and range: "0 \<le> port r" "port r \<le> 65535"
  shows "join sha1 net n (ip r) (port r) =
           Some (n\<lparr>successor := Some (self_descriptor r)\<rparr>,
                 net((ip r, port r) \<mapsto> r\<lparr>predecessor := Some (self_descriptor n)\<rparr>))"
  using send_find_successor_at_root[of net r, OF r root range] send_update_predecessor[of net r, OF r range]
  by (simp add: join_def self_descriptor_def)

lemma join_via_interval:
  assumes at: "net (bi, bp) = Some z" and brange: "0 \<le> bp" "bp \<le> 65535"
    and sz: "successor z = Some (self_descriptor m)" and ne: "node_id m \<noteq> node_id z"
    and lo: "node_id z < node_id n" and hi: "node_id n \<le> node_id m"
    and m: "net (ip m, port m) = Some m" and mrange: "0 \<le> port m" "port m \<le> 65535"
  shows "join sha1 net n bi bp =
           Some (n\<lparr>successor := Some (self_descriptor m)\<rparr>,
                 net((ip m, port m) \<mapsto> m\<lparr>predecessor := Some (self_descriptor n)\<rparr>))"
proof -
  have fs: "find_successor z (JInt (node_id n)) = Inr (Respond (success_successor (self_descriptor m)))"
    using sz ne lo hi by (simp add: find_successor_descr self_descriptor_def py_chain_lt_le_num)
  have look: "send_request sha1 net (JStr bi) (JInt bp) (find_successor_request (JInt (node_id n))) =
      Some (success_successor (self_descriptor m), net)"
    using at brange fs by (subst send_request.simps) (simp add: fun_upd_idem)
  from look send_update_predecessor[of net m, OF m mrange] show ?thesis
    by (simp add: join_def self_descriptor_def)
qed

lemma start_node_bootstrap:
  assumes "net (a, p) = None" "0 < p" "p \<le> 65535"
  shows "start_node sha1 net a p None = Some (net((a, p) \<mapsto> bootstrap (init_node sha1 a p)))"
  using assms by (simp add: start_node_def start_server_def bootstrap_def Let_def)

lemma start_node_joined:
  assumes j: "join sha1 net (init_node sha1 a p) bi bp = Some (n', net')"
    and b: "bi \<noteq> []" "bp \<noteq> 0" and free: "net' (a, p) = None" and range: "0 < p" "p \<le> 65535"
    and n': "ip n' = a" "port n' = p"
  shows "start_node sha1 net a p (Some (bi, bp)) = Some (net'((a, p) \<mapsto> n'))"
  using assms by (simp add: start_node_def start_server_def Let_def)

lemma reachable_run_start:
  "reachable_run sha1 net \<Longrightarrow> start_node sha1 net a p boot = Some net' \<Longrightarrow> reachable_run sha1 net'"
  by (blast intro: reachable_run.step run_step.node net_step.start)

lemma reachable_run_exit:
  "reachable_run sha1 net \<Longrightarrow> net ad \<noteq> None \<Longrightarrow> reachable_run sha1 (signal_handler net ad)"
  by (blast intro: reachable_run.step run_step.exit)

lemma generate_id_addr_neq:
  "generate_id sha1 a p \<noteq> generate_id sha1 b q \<Longrightarrow> (a, p) \<noteq> (b, q)"
  by auto

subsection \<open>Crash and restart\<close>

text \<open>
  C24. Process exits break the guarantee that lookups return.  For any three
  addresses with identifiers \<open>z < b < a\<close>, the run "start \<open>a\<close>; \<open>z\<close> joins via
  \<open>a\<close>; \<open>a\<close> exits; start \<open>b\<close>; \<open>a\<close> restarts and joins via \<open>b\<close>; \<open>b\<close> exits;
  \<open>b\<close> restarts and joins via \<open>z\<close>" is possible, and in the network it leaves
  \<open>a\<close> and \<open>b\<close> are each other's successor, so a lookup of \<open>b\<close>'s identifier
  sent to \<open>a\<close> is forwarded forever.  \<open>z\<close> still names \<open>a\<close> as successor after
  \<open>a\<close>'s exit, and the restarted \<open>a\<close> answers at the same address.
\<close>

theorem restart_creates_forwarding_cycle:
  assumes zb: "generate_id sha1 zi zp < generate_id sha1 bi bp"
    and ba: "generate_id sha1 bi bp < generate_id sha1 ai ap"
    and ips: "ai \<noteq> []" "bi \<noteq> []" "zi \<noteq> []"
    and ports: "0 < ap" "ap \<le> 65535" "0 < bp" "bp \<le> 65535" "0 < zp" "zp \<le> 65535"
  shows "\<exists>net. reachable_run sha1 net \<and>
           send_request sha1 net (JStr ai) (JInt ap) (find_successor_request (JInt (generate_id sha1 bi bp))) = None"
proof -
  have ab: "(ai, ap) \<noteq> (bi, bp)" "(bi, bp) \<noteq> (ai, ap)"
    and az: "(ai, ap) \<noteq> (zi, zp)" "(zi, zp) \<noteq> (ai, ap)"
    and bz: "(bi, bp) \<noteq> (zi, zp)" "(zi, zp) \<noteq> (bi, bp)"
    using zb ba by (auto dest: generate_id_addr_neq)
  define A0 where "A0 = init_node sha1 ai ap"
  define B0 where "B0 = init_node sha1 bi bp"
  define Z0 where "Z0 = init_node sha1 zi zp"
  define A1 where "A1 = bootstrap A0"
  define B1 where "B1 = bootstrap B0"
  define Z where "Z = Z0\<lparr>successor := Some (self_descriptor A1)\<rparr>"
  define A2 where "A2 = A0\<lparr>successor := Some (self_descriptor B1)\<rparr>"
  define B2 where "B2 = B0\<lparr>successor := Some (self_descriptor A2)\<rparr>"
  have fields: "ip A0 = ai" "port A0 = ap" "ip B0 = bi" "port B0 = bp" "ip Z0 = zi" "port Z0 = zp"
    "ip A1 = ai" "port A1 = ap" "ip B1 = bi" "port B1 = bp" "ip A2 = ai" "port A2 = ap"
    "ip B2 = bi" "port B2 = bp"
    "node_id A2 = generate_id sha1 ai ap" "node_id B2 = generate_id sha1 bi bp"
    "node_id Z = generate_id sha1 zi zp" "node_id B0 = generate_id sha1 bi bp"
    by (simp_all add: A0_def B0_def Z0_def A1_def B1_def A2_def B2_def Z_def bootstrap_def)
  have descr: "self_descriptor A1 = self_descriptor A2" "self_descriptor B1 = self_descriptor B2"
    by (simp_all add: A1_def A2_def B1_def B2_def bootstrap_def)
  have roots: "root_node A1" "root_node B1"
    by (simp_all add: A1_def B1_def bootstrap_root)
  \<comment> \<open>1. \<open>a\<close> starts alone.\<close>
  define net1 where "net1 = [(ai, ap) \<mapsto> A1]"
  have r1: "reachable_run sha1 net1"
    using reachable_run_start[OF reachable_run.empty start_node_bootstrap[of Map.empty ai ap sha1]] ports
    by (simp add: net1_def A1_def A0_def)
  \<comment> \<open>2. \<open>z\<close> joins through \<open>a\<close>.\<close>
  define net2 where "net2 = net1((ai, ap) \<mapsto> A1\<lparr>predecessor := Some (self_descriptor Z0)\<rparr>, (zi, zp) \<mapsto> Z)"
  have j2: "join sha1 net1 (init_node sha1 zi zp) ai ap =
      Some (Z, net1((ai, ap) \<mapsto> A1\<lparr>predecessor := Some (self_descriptor Z0)\<rparr>))"
    using join_via_root[of net1 A1 sha1 Z0, OF _ roots(1)] ports fields
    by (simp add: net1_def Z_def Z0_def)
  have r2: "reachable_run sha1 net2"
    using reachable_run_start[OF r1 start_node_joined[OF j2]] ips ports az
    by (simp add: net2_def net1_def Z_def Z0_def)
  \<comment> \<open>3. \<open>a\<close> exits.\<close>
  define net3 where "net3 = signal_handler net2 (ai, ap)"
  have r3: "reachable_run sha1 net3"
    using reachable_run_exit[OF r2, of "(ai, ap)"] by (simp add: net3_def net2_def)
  \<comment> \<open>4. \<open>b\<close> starts alone.\<close>
  define net4 where "net4 = net3((bi, bp) \<mapsto> B1)"
  have r4: "reachable_run sha1 net4"
    using reachable_run_start[OF r3 start_node_bootstrap[of net3 bi bp sha1]] ports ab bz
    by (simp add: net4_def net3_def net2_def net1_def signal_handler_def B1_def B0_def)
  \<comment> \<open>5. \<open>a\<close> restarts and joins through \<open>b\<close>.\<close>
  define net5 where "net5 = net4((bi, bp) \<mapsto> B1\<lparr>predecessor := Some (self_descriptor A0)\<rparr>, (ai, ap) \<mapsto> A2)"
  have j5: "join sha1 net4 (init_node sha1 ai ap) bi bp =
      Some (A2, net4((bi, bp) \<mapsto> B1\<lparr>predecessor := Some (self_descriptor A0)\<rparr>))"
    using join_via_root[of net4 B1 sha1 A0, OF _ roots(2)] ports fields
    by (simp add: net4_def A2_def A0_def)
  have r5: "reachable_run sha1 net5"
    using reachable_run_start[OF r4 start_node_joined[OF j5]] ips ports ab fields
    by (simp add: net5_def net4_def net3_def signal_handler_def)
  \<comment> \<open>6. \<open>b\<close> exits.\<close>
  define net6 where "net6 = signal_handler net5 (bi, bp)"
  have r6: "reachable_run sha1 net6"
    using reachable_run_exit[OF r5, of "(bi, bp)"] by (simp add: net6_def net5_def)
  have at6: "net6 (zi, zp) = Some Z" "net6 (ai, ap) = Some A2"
    using ab az bz by (auto simp add: net6_def net5_def net4_def net3_def net2_def net1_def signal_handler_def)
  \<comment> \<open>7. \<open>b\<close> restarts and joins through \<open>z\<close>, which names the restarted \<open>a\<close>.\<close>
  define net7 where "net7 = net6((ai, ap) \<mapsto> A2\<lparr>predecessor := Some (self_descriptor B0)\<rparr>, (bi, bp) \<mapsto> B2)"
  have sz: "successor Z = Some (self_descriptor A2)"
    using descr(1) by (simp add: Z_def)
  have j7: "join sha1 net6 B0 zi zp =
      Some (B2, net6((ai, ap) \<mapsto> A2\<lparr>predecessor := Some (self_descriptor B0)\<rparr>))"
    using join_via_interval[of net6 zi zp Z A2 B0 sha1, OF at6(1) _ _ sz] at6(2) ports fields zb ba
    by (simp add: B2_def)
  have r7: "reachable_run sha1 net7"
    using reachable_run_start[OF r6 start_node_joined[OF j7[unfolded B0_def]]] ips ports ab fields
    by (simp add: net7_def net6_def signal_handler_def B0_def)
  \<comment> \<open>The restarted \<open>a\<close> and \<open>b\<close> are each other's successor.\<close>
  define A3 where "A3 = A2\<lparr>predecessor := Some (self_descriptor B0)\<rparr>"
  have sA: "successor A3 = Some (self_descriptor B2)" and sB: "successor B2 = Some (self_descriptor A3)"
    using descr(2) by (simp_all add: A3_def A2_def B2_def)
  have at7: "net7 (ip A3, port A3) = Some A3" "net7 (ip B2, port B2) = Some B2"
    using ab fields by (auto simp add: net7_def A3_def)
  have loop: "send_request sha1 net7 (JStr ai) (JInt ap) (find_successor_request (JInt (generate_id sha1 bi bp))) = None"
    using two_cycle_diverges[OF at7 _ _ _ _ sA sB] ports fields ba
    by (simp add: A3_def)
  from r7 loop show ?thesis by blast
qed

theorem restart_creates_forwarding_cycle_witness:
  "\<exists>net. reachable_run (\<lambda>s. length s) net \<and>
     send_request (\<lambda>s. length s) net (JStr ''aaaa'') (JInt 1)
       (find_successor_request (JInt (generate_id (\<lambda>s. length s) ''bb'' 1))) = None"
  by (rule restart_creates_forwarding_cycle [where zi = "''z''" and zp = 1])
    (simp_all add: generate_id_def addr_string_def show_int_def show_nat_def nat_digits.simps)


text \<open>
  C25. After a node exits, a lookup that its predecessor forwards to it ends in the
  connection-refused error: the forwarding node's \<^verbatim>\<open>send_request\<close> catches the
  refused connection and the client receives
  \<^verbatim>\<open>{"status": "error", "message": "[Errno 111] Connection refused"}\<close>, with no
  retry through another node; the network is unchanged.
\<close>

theorem lookup_past_exited_successor:
  assumes z: "net (ip z, port z) = Some z" and zr: "0 \<le> port z" "port z \<le> 65535"
    and sz: "successor z = Some (self_descriptor m)" and ne: "node_id m \<noteq> node_id z"
    and other: "(ip m, port m) \<noteq> (ip z, port z)" and mr: "0 \<le> port m" "port m \<le> 65535"
    and x: "py_num x = Some v" and out: "\<not> (node_id z < v \<and> v \<le> node_id m)"
  shows "send_request sha1 (signal_handler net (ip m, port m)) (JStr (ip z)) (JInt (port z))
           (find_successor_request x) =
         Some (error_dict ''[Errno 111] Connection refused'', signal_handler net (ip m, port m))"
proof -
  let ?net = "signal_handler net (ip m, port m)"
  have at: "?net (ip z, port z) = Some z" and gone: "?net (ip m, port m) = None"
    using z other by (auto simp: signal_handler_def)
  have fwd: "send_request sha1 ?net (JStr (ip z)) (JInt (port z)) (find_successor_request x) =
      send_request sha1 ?net (JStr (ip m)) (JInt (port m)) (find_successor_request x)"
    using at zr find_successor_relay[OF sz ne x out]
    by (subst send_request.simps) (simp add: fun_upd_idem)
  have "send_request sha1 ?net (JStr (ip m)) (JInt (port m)) (find_successor_request x) =
      Some (error_dict ''[Errno 111] Connection refused'', ?net)"
    using gone mr by (subst send_request.simps) simp
  with fwd show ?thesis by simp
qed

theorem lookup_past_exited_successor_witness:
  "send_request (\<lambda>s. length s)
     (signal_handler
       [(''z'', 1) \<mapsto> \<lparr>ip = ''z'', port = 1, node_id = 10, data_store = Map.empty, predecessor = None,
                       successor = Some (node_descriptor (JInt 20) (JStr ''m'') (JInt 2))\<rparr>,
        (''m'', 2) \<mapsto> \<lparr>ip = ''m'', port = 2, node_id = 20, data_store = Map.empty, predecessor = None,
                       successor = Some (node_descriptor (JInt 10) (JStr ''z'') (JInt 1))\<rparr>]
       (''m'', 2))
     (JStr ''z'') (JInt 1) (find_successor_request (JInt 5)) =
   Some (error_dict ''[Errno 111] Connection refused'',
     signal_handler
       [(''z'', 1) \<mapsto> \<lparr>ip = ''z'', port = 1, node_id = 10, data_store = Map.empty, predecessor = None,
                       successor = Some (node_descriptor (JInt 20) (JStr ''m'') (JInt 2))\<rparr>,
        (''m'', 2) \<mapsto> \<lparr>ip = ''m'', port = 2, node_id = 20, data_store = Map.empty, predecessor = None,
                       successor = Some (node_descriptor (JInt 10) (JStr ''z'') (JInt 1))\<rparr>]
       (''m'', 2))"
  using lookup_past_exited_successor
    [where z = "\<lparr>ip = ''z'', port = 1, node_id = 10, data_store = Map.empty, predecessor = None,
                 successor = Some (node_descriptor (JInt 20) (JStr ''m'') (JInt 2))\<rparr>"
       and m = "\<lparr>ip = ''m'', port = 2, node_id = 20, data_store = Map.empty, predecessor = None,
                 successor = Some (node_descriptor (JInt 10) (JStr ''z'') (JInt 1))\<rparr>"
       and x = "JInt 5" and v = 5]
  by (simp add: self_descriptor_def)

end
