(* ===== verification/Command_Line.thy ===== *)
theory Command_Line
  imports Network
begin

text \<open>
  The command line (\<^verbatim>\<open>if __name__ == "__main__"\<close>, \<^verbatim>\<open>src/node.py\<close> lines
  239-258).  \<^verbatim>\<open>sys.argv\<close> is the list of strings, program name first; the
  ports go through Python's \<^verbatim>\<open>int()\<close> on a string, modelled as \<open>py_int\<close>:
  surrounding whitespace is stripped, an optional sign is read, then decimal digits
  with single underscores between them; anything else raises \<^verbatim>\<open>ValueError\<close>,
  which \<^verbatim>\<open>main\<close> does not catch.  Characters are read as code points below 256
  (Latin-1), where Python's whitespace is \<open>\t \n \v \f \r\<close>, space, \<open>\x1c\<close>-\<open>\x1f\<close>,
  \<open>\x85\<close> and \<open>\xa0\<close>, and the only decimal digits are \<open>0\<close>-\<open>9\<close>.
\<close>

subsection \<open>\<^verbatim>\<open>int(s)\<close> for a string\<close>

definition py_space :: "char \<Rightarrow> bool" where
  "py_space c = (of_char c \<in> {9, 10, 11, 12, 13, 28, 29, 30, 31, 32, 133, 160 :: nat})"

definition is_digit :: "char \<Rightarrow> bool" where
  "is_digit c = (48 \<le> (of_char c :: nat) \<and> (of_char c :: nat) \<le> 57)"

definition digit_val :: "char \<Rightarrow> nat" where
  "digit_val c = of_char c - 48"

text \<open>\<^verbatim>\<open>s.strip()\<close>, as \<^verbatim>\<open>int()\<close> skips leading and trailing whitespace.\<close>

definition py_strip :: "string \<Rightarrow> string" where
  "py_strip s = dropWhile py_space (rev (dropWhile py_space (rev s)))"

text \<open>Digits after the first: a digit, or an underscore that must be followed by a digit.\<close>

fun digits_acc :: "nat \<Rightarrow> string \<Rightarrow> nat option" where
  "digits_acc acc [] = Some acc"
| "digits_acc acc (c # cs) =
     (if is_digit c then digits_acc (10 * acc + digit_val c) cs
      else if c = CHR ''_'' then
        (case cs of
          d # ds \<Rightarrow> if is_digit d then digits_acc (10 * acc + digit_val d) ds else None
        | [] \<Rightarrow> None)
      else None)"

definition parse_decimal :: "string \<Rightarrow> nat option" where
  "parse_decimal s = (case s of c # cs \<Rightarrow> if is_digit c then digits_acc (digit_val c) cs else None | [] \<Rightarrow> None)"

definition py_int :: "string \<Rightarrow> py_exc + int" where
  "py_int s =
    (let t = py_strip s;
         r = (case t of
               c # cs \<Rightarrow>
                 if c = CHR ''-'' then map_option (\<lambda>n. - int n) (parse_decimal cs)
                 else if c = CHR ''+'' then map_option int (parse_decimal cs)
                 else map_option int (parse_decimal t)
             | [] \<Rightarrow> None)
     in case r of Some i \<Rightarrow> Inr i | None \<Rightarrow> Inl ValueError)"

subsection \<open>The entry point\<close>

text \<open>
  How a process started with \<open>argv\<close> ends up: the usage message and
  \<^verbatim>\<open>sys.exit(1)\<close>, an uncaught exception from \<^verbatim>\<open>int()\<close>, or a running node
  (the network after \<^verbatim>\<open>ChordNode(...)\<close>; \<open>None\<close> when the constructor's join
  never returns).
\<close>

datatype cli_outcome = Usage | Uncaught py_exc | Running "network option"

definition main :: "digest \<Rightarrow> network \<Rightarrow> string list \<Rightarrow> cli_outcome" where
  "main sha1 net argv =
    (if length argv = 3 then
       (case py_int (argv ! 2) of
         Inl e \<Rightarrow> Uncaught e
       | Inr p \<Rightarrow> Running (start_node sha1 net (argv ! 1) p None))
     else if length argv = 5 then
       (case py_int (argv ! 2) of
         Inl e \<Rightarrow> Uncaught e
       | Inr p \<Rightarrow>
          (case py_int (argv ! 4) of
            Inl e \<Rightarrow> Uncaught e
          | Inr bp \<Rightarrow> Running (start_node sha1 net (argv ! 1) p (Some (argv ! 3, bp)))))
     else Usage)"

subsection \<open>Decimal digits\<close>

lemma is_digit_other:
  "is_digit c \<Longrightarrow> \<not> py_space c \<and> c \<noteq> CHR ''-'' \<and> c \<noteq> CHR ''+'' \<and> c \<noteq> CHR ''_''"
  by (auto simp: is_digit_def py_space_def)

lemma digit_char_digit:
  assumes "d < 10"
  shows "is_digit (digit_char d)" "digit_val (digit_char d) = d"
  using assms by (simp_all add: digit_char_def is_digit_def digit_val_def)

lemma digits_acc_map:
  "\<forall>d \<in> set ds. d < 10 \<Longrightarrow>
     digits_acc acc (map digit_char ds) = Some (foldl (\<lambda>a d. 10 * a + d) acc ds)"
  by (induction ds arbitrary: acc) (simp_all add: digit_char_digit)

lemma parse_decimal_show_nat: "parse_decimal (show_nat n) = Some n"
proof -
  obtain d ds where nd: "nat_digits n = d # ds"
    using nat_digits_ne by (cases "nat_digits n") auto
  have lt: "d < 10" "\<forall>x \<in> set ds. x < 10"
    using nat_digits_lt[of _ n] nd by auto
  have "foldl (\<lambda>a d. 10 * a + d) 0 (d # ds) = n"
    using nat_digits_value[of n] nd by simp
  then show ?thesis
    using lt by (simp add: parse_decimal_def show_nat_def nd digit_char_digit digits_acc_map)
qed


lemma show_nat_ends:
  "show_nat n \<noteq> [] \<and> is_digit (hd (show_nat n)) \<and> is_digit (last (show_nat n))"
proof -
  obtain d ds where nd: "nat_digits n = d # ds"
    using nat_digits_ne by (cases "nat_digits n") auto
  have lt: "d < 10" "last (d # ds) < 10"
    using nat_digits_lt[of _ n] nd last_in_set[of "d # ds"] by auto
  have "last (show_nat n) = digit_char (last (d # ds))"
    unfolding show_nat_def nd by (rule last_map) simp
  then show ?thesis
    using lt by (simp add: show_nat_def nd digit_char_digit)
qed

subsection \<open>Stripping\<close>

lemma py_strip_pad:
  assumes ws: "\<forall>c \<in> set ws. py_space c" and ws': "\<forall>c \<in> set ws'. py_space c"
    and s: "s \<noteq> []" "\<not> py_space (hd s)" "\<not> py_space (last s)"
  shows "py_strip (ws @ s @ ws') = s"
proof -
  obtain s0 x where sx: "s = s0 @ [x]"
    using s(1) by (cases s rule: rev_cases) auto
  have "dropWhile py_space (rev ws' @ (rev s @ rev ws)) = dropWhile py_space (rev s @ rev ws)"
    by (rule dropWhile_append2) (use ws' in simp)
  also have "\<dots> = rev s @ rev ws"
    using s(3) by (simp add: sx)
  finally have "rev (dropWhile py_space (rev (ws @ s @ ws'))) = ws @ s"
    by simp
  moreover have "dropWhile py_space (ws @ s) = s"
    using ws s(1,2) by (cases s) (simp_all add: dropWhile_append2)
  ultimately show ?thesis
    by (simp add: py_strip_def)
qed

lemma py_int_no_digit:
  assumes nd: "\<forall>c \<in> set s. \<not> is_digit c"
  shows "py_int s = Inl ValueError"
proof -
  have none: "\<forall>c \<in> set t. \<not> is_digit c \<Longrightarrow> parse_decimal t = None" for t
    by (cases t) (simp_all add: parse_decimal_def)
  have "set (py_strip s) \<subseteq> set s"
    unfolding py_strip_def by (auto dest!: set_dropWhileD)
  with nd have t: "\<forall>c \<in> set (py_strip s). \<not> is_digit c"
    by blast
  show ?thesis
  proof (cases "py_strip s")
    case Nil
    then show ?thesis by (simp add: py_int_def)
  next
    case (Cons c cs)
    with t have "parse_decimal cs = None" "parse_decimal (c # cs) = None"
      by (simp_all add: none)
    with Cons show ?thesis by (simp add: py_int_def)
  qed
qed


lemma show_int_ends:
  "show_int i \<noteq> [] \<and> \<not> py_space (hd (show_int i)) \<and> \<not> py_space (last (show_int i))"
  using show_nat_ends[of "nat (- i)"] show_nat_ends[of "nat i"] is_digit_other
  by (auto simp: show_int_def py_space_def)

lemma py_int_show_int_core: "py_int (show_int i) = Inr i"
proof -
  have strip: "py_strip (show_int i) = show_int i"
    using py_strip_pad[of "[]" "[]" "show_int i"] show_int_ends[of i] by simp
  show ?thesis
  proof (cases "i < 0")
    case True
    then have "py_strip (CHR ''-'' # show_nat (nat (- i))) = CHR ''-'' # show_nat (nat (- i))"
      using strip by (simp add: show_int_def)
    with True show ?thesis
      by (simp add: py_int_def show_int_def parse_decimal_show_nat)
  next
    case False
    obtain c cs where sn: "show_nat (nat i) = c # cs" and c: "is_digit c"
      using show_nat_ends[of "nat i"] by (cases "show_nat (nat i)") auto
    have "py_strip (c # cs) = c # cs"
      using strip False by (simp add: show_int_def sn)
    then show ?thesis
      using False is_digit_other[OF c] parse_decimal_show_nat[of "nat i"]
      by (simp add: py_int_def show_int_def sn)
  qed
qed


lemma py_int_pad:
  "\<forall>c \<in> set ws. py_space c \<Longrightarrow> \<forall>c \<in> set ws'. py_space c \<Longrightarrow>
     py_int (ws @ show_int i @ ws') = Inr i"
  using py_strip_pad[of ws ws' "show_int i"] py_strip_pad[of "[]" "[]" "show_int i"] show_int_ends[of i]
    py_int_show_int_core[of i]
  by (simp add: py_int_def)

subsection \<open>Properties of the entry point\<close>

text \<open>
  C26. A port written the way Python prints an int, \<^verbatim>\<open>str(p)\<close>, possibly with
  surrounding whitespace, is read back as \<open>p\<close> by \<^verbatim>\<open>int()\<close>: \<^verbatim>\<open>main\<close> with two
  arguments starts a bootstrap node on port \<open>p\<close>, and with four arguments a node
  on port \<open>p\<close> joining through bootstrap port \<open>q\<close>.
\<close>

theorem main_reads_printed_ports:
  assumes ws: "\<forall>c \<in> set ws. py_space c" and ws': "\<forall>c \<in> set ws'. py_space c"
  shows "main sha1 net [prog, a, ws @ show_int p @ ws'] = Running (start_node sha1 net a p None) \<and>
         main sha1 net [prog, a, ws @ show_int p @ ws', b, ws @ show_int q @ ws'] =
           Running (start_node sha1 net a p (Some (b, q)))"
  using py_int_pad[OF ws ws', of p] py_int_pad[OF ws ws', of q] by (simp add: main_def)

theorem main_reads_printed_ports_witness:
  "main (\<lambda>s. length s) Map.empty [''node.py'', ''127.0.0.1'', '' '' @ show_int 5000 @ ''\<newline>''] =
     Running (start_node (\<lambda>s. length s) Map.empty ''127.0.0.1'' 5000 None) \<and>
   main (\<lambda>s. length s) Map.empty
     [''node.py'', ''127.0.0.1'', '' '' @ show_int 5000 @ ''\<newline>'', ''127.0.0.1'', '' '' @ show_int 5001 @ ''\<newline>''] =
     Running (start_node (\<lambda>s. length s) Map.empty ''127.0.0.1'' 5000 (Some (''127.0.0.1'', 5001)))"
  by (rule main_reads_printed_ports) (simp_all add: py_space_def)

text \<open>
  C27. A port argument with no decimal digit makes \<^verbatim>\<open>int()\<close> raise
  \<^verbatim>\<open>ValueError\<close>, which nothing catches: the process dies before any node is
  created, both for the bootstrap form and, through either port, for the joining form.
\<close>

theorem main_rejects_non_numeric_port:
  assumes bad: "\<forall>c \<in> set ps. \<not> is_digit c"
  shows "main sha1 net [prog, a, ps] = Uncaught ValueError \<and>
         main sha1 net [prog, a, ps, b, qs] = Uncaught ValueError \<and>
         main sha1 net [prog, a, show_int p, b, ps] = Uncaught ValueError"
  using py_int_no_digit[OF bad] py_int_show_int_core[of p] by (simp add: main_def)

theorem main_rejects_non_numeric_port_witness:
  "main (\<lambda>s. length s) Map.empty [''node.py'', ''127.0.0.1'', ''http''] = Uncaught ValueError \<and>
   main (\<lambda>s. length s) Map.empty [''node.py'', ''127.0.0.1'', ''http'', ''127.0.0.1'', ''5000''] = Uncaught ValueError \<and>
   main (\<lambda>s. length s) Map.empty [''node.py'', ''127.0.0.1'', show_int 5000, ''127.0.0.1'', ''http''] =
     Uncaught ValueError"
  by (rule main_rejects_non_numeric_port) (simp add: is_digit_def)

text \<open>
  C28. The joining form silently degrades to the bootstrap form when the bootstrap
  address is falsy (\<^verbatim>\<open>if bootstrap_ip and bootstrap_port\<close>): an empty bootstrap
  ip or a bootstrap port that reads as \<open>0\<close> starts a new one-node ring, exactly as
  if no bootstrap had been given.
\<close>

theorem main_falsy_bootstrap_starts_ring:
  assumes q: "py_int qs = Inr q" and falsy: "b = [] \<or> q = 0"
  shows "main sha1 net [prog, a, ps, b, qs] = main sha1 net [prog, a, ps]"
  using q falsy by (auto simp: main_def start_node_def split: sum.split)

theorem main_falsy_bootstrap_starts_ring_witness:
  "main (\<lambda>s. length s) Map.empty [''node.py'', ''127.0.0.1'', ''5000'', ''127.0.0.1'', ''0''] =
   main (\<lambda>s. length s) Map.empty [''node.py'', ''127.0.0.1'', ''5000'']"
proof -
  have "py_int (show_int 0) = Inr 0" by (rule py_int_show_int_core)
  then have "py_int ''0'' = Inr 0" by (simp add: show_int_def show_nat_def nat_digits.simps)
  then show ?thesis by (rule main_falsy_bootstrap_starts_ring) simp
qed

end
