(* ===== verification/Typing.thy ===== *)
theory Typing
  imports Lifecycle
begin

text \<open>
  The shape of the ring state.  The specification's \<^emph>\<open>NodeDescriptor\<close> is
  \<^verbatim>\<open>{node_id, ip, port}\<close>; here \<open>wf_descriptor\<close> also asks that the identifier
  is the one \<^verbatim>\<open>generate_id\<close> derives from the address and that the port is
  one a node can listen on.  \<open>typed_net\<close> asks this of every successor in the
  network, besides each node being listed under its own address.  Unlike the star
  invariant of \<open>Network\<close>, it survives process exits: it holds in every network a
  run of starts, client requests and exits can reach, so a successor may name a dead
  node but is never malformed.
\<close>

fun wf_descriptor :: "digest \<Rightarrow> json \<Rightarrow> bool" where
  "wf_descriptor sha1 (JObj [(k1, JInt i), (k2, JStr h), (k3, JInt p)]) =
     (k1 = ''node_id'' \<and> k2 = ''ip'' \<and> k3 = ''port'' \<and> i = generate_id sha1 h p \<and> 0 < p \<and> p \<le> 65535)"
| "wf_descriptor sha1 _ = False"

definition typed_node :: "digest \<Rightarrow> addr \<Rightarrow> node \<Rightarrow> bool" where
  "typed_node sha1 ad n \<longleftrightarrow>
     ad = (ip n, port n) \<and> node_id n = generate_id sha1 (ip n) (port n) \<and>
     0 < port n \<and> port n \<le> 65535 \<and> pred_option (wf_descriptor sha1) (successor n)"

definition typed_net :: "digest \<Rightarrow> network \<Rightarrow> bool" where
  "typed_net sha1 net \<longleftrightarrow> (\<forall>ad n. net ad = Some n \<longrightarrow> typed_node sha1 ad n)"

text \<open>What a lookup can answer in a typed network.\<close>

definition typed_reply :: "digest \<Rightarrow> json \<Rightarrow> bool" where
  "typed_reply sha1 r \<longleftrightarrow> (\<exists>m. r = error_dict m) \<or> (\<exists>d. wf_descriptor sha1 d \<and> r = success_successor d)"

subsection \<open>Descriptors\<close>

lemma wf_descriptor_iff:
  "wf_descriptor sha1 d \<longleftrightarrow>
     (\<exists>h p. d = node_descriptor (JInt (generate_id sha1 h p)) (JStr h) (JInt p) \<and> 0 < p \<and> p \<le> 65535)"
  by (cases "(sha1, d)" rule: wf_descriptor.cases) (auto simp: node_descriptor_def)

lemma wf_self_descriptor:
  "wf_descriptor sha1 (self_descriptor n) \<longleftrightarrow>
     node_id n = generate_id sha1 (ip n) (port n) \<and> 0 < port n \<and> port n \<le> 65535"
  by (simp add: self_descriptor_def node_descriptor_def)

lemma find_successor_shape:
  "find_successor n x = Inr h \<Longrightarrow>
     \<exists>s. successor n = Some s \<and>
         (h = Respond (success_successor s) \<or> (\<exists>a p. h = Relay a p (find_successor_request x)))"
  by (auto simp: find_successor_def get_successor_def split: option.splits sum.splits if_splits bool.splits)

lemma bootstrap_fields [simp]:
  "ip (bootstrap n) = ip n" "port (bootstrap n) = port n" "node_id (bootstrap n) = node_id n"
  by (simp_all add: bootstrap_def)

lemma typed_netD:
  "typed_net sha1 net \<Longrightarrow> net ad = Some n \<Longrightarrow> typed_node sha1 ad n"
  unfolding typed_net_def by blast


lemma typed_reply_error [simp]: "typed_reply sha1 (error_dict m)"
  unfolding typed_reply_def by blast

subsection \<open>Lookups answer with descriptors\<close>

lemma send_find_successor_typed:
  assumes snd: "send_request sha1 net a p (find_successor_request x) = Some y" and inv: "typed_net sha1 net"
  shows "snd y = net \<and> typed_reply sha1 (fst y)"
proof -
  have "\<forall>x. rq = find_successor_request x \<longrightarrow> typed_net s nt \<longrightarrow> snd y = nt \<and> typed_reply s (fst y)"
    if "send_request s nt a p rq = Some y" for s nt a p rq y
  proof (rule send_request.raw_induct
      [where P = "\<lambda>s nt a p rq y. \<forall>x. rq = find_successor_request x \<longrightarrow> typed_net s nt \<longrightarrow>
                    snd y = nt \<and> typed_reply s (fst y)", OF _ that])
    fix f s nt a p rq y
    assume IH: "\<And>s nt a p rq y. f s nt a p rq = Some y \<Longrightarrow>
        \<forall>x. rq = find_successor_request x \<longrightarrow> typed_net s nt \<longrightarrow> snd y = nt \<and> typed_reply s (fst y)"
      and body: "(case connect_addr a p of
          Inl e \<Rightarrow> Some (error_dict (exc_str e), nt)
        | Inr ad \<Rightarrow>
           (case nt ad of
             None \<Rightarrow> Some (error_dict (exc_str ConnectionRefusedError), nt)
           | Some n \<Rightarrow>
              (case handle_request s n (Some rq) of
                None \<Rightarrow> Some (error_dict (exc_str JSONDecodeError), nt)
              | Some (Respond r, n') \<Rightarrow> Some (r, nt(ad \<mapsto> n'))
              | Some (Relay fa fp freq, n') \<Rightarrow> f s (nt(ad \<mapsto> n')) fa fp freq))) = Some y"
    show "\<forall>x. rq = find_successor_request x \<longrightarrow> typed_net s nt \<longrightarrow> snd y = nt \<and> typed_reply s (fst y)"
    proof (intro allI impI)
      fix x
      assume rq: "rq = find_successor_request x" and tn: "typed_net s nt"
      show "snd y = nt \<and> typed_reply s (fst y)"
      proof (cases "connect_addr a p")
        case (Inl e)
        with body show ?thesis by auto
      next
        case (Inr ad)
        show ?thesis
        proof (cases "nt ad")
          case None
          with body Inr show ?thesis by auto
        next
          case (Some n)
          have upd: "nt(ad \<mapsto> n) = nt" using Some by (simp add: fun_upd_idem)
          show ?thesis
          proof (cases "find_successor n x")
            case (Inl e)
            with body Inr Some rq show ?thesis by auto
          next
            case (Inr h)
            from find_successor_shape[OF Inr] obtain d where sd: "successor n = Some d"
              and h: "h = Respond (success_successor d) \<or> (\<exists>a p. h = Relay a p (find_successor_request x))"
              by blast
            have "wf_descriptor s d"
              using typed_netD[OF tn Some] sd by (simp add: typed_node_def)
            note wf = this
            from h show ?thesis
            proof (elim disjE exE)
              assume "h = Respond (success_successor d)"
              with body \<open>connect_addr a p = Inr ad\<close> Some Inr rq upd
              have "y = (success_successor d, nt)" by simp
              with wf show ?thesis unfolding typed_reply_def by auto
            next
              fix a' p'
              assume "h = Relay a' p' (find_successor_request x)"
              with body \<open>connect_addr a p = Inr ad\<close> Some Inr rq upd
              have "f s nt a' p' (find_successor_request x) = Some y" by simp
              from IH[OF this] tn show ?thesis by blast
            qed
          qed
        qed
      qed
    qed
  qed
  with snd inv show ?thesis by blast
qed


subsection \<open>Every step keeps the network typed\<close>

lemma typed_keeps:
  assumes inv: "typed_net sha1 net" and kt: "keeps_topology net net'"
  shows "typed_net sha1 net'"
  unfolding typed_net_def
proof (intro allI impI)
  fix ad n'
  assume "net' ad = Some n'"
  from keeps_topology_back[OF kt this] obtain n where "net ad = Some n" "node_frame n n'"
    by blast
  with typed_netD[OF inv] show "typed_node sha1 ad n'"
    by (fastforce simp: typed_node_def node_frame_def)
qed

lemma typed_start_server:
  assumes inv: "typed_net sha1 net"
    and n: "0 < port n \<Longrightarrow> port n \<le> 65535 \<Longrightarrow> typed_node sha1 (ip n, port n) n"
  shows "typed_net sha1 (start_server net n)"
  using inv n unfolding typed_net_def start_server_def by auto

lemma join_typed:
  assumes inv: "typed_net sha1 net" and j: "join sha1 net n bip bport = Some (n', net')"
  shows "keeps_topology net net' \<and> ip n' = ip n \<and> port n' = port n \<and> node_id n' = node_id n \<and>
         (pred_option (wf_descriptor sha1) (successor n) \<longrightarrow> pred_option (wf_descriptor sha1) (successor n'))"
proof -
  obtain resp net1 where snd1: "send_request sha1 net (JStr bip) (JInt bport)
      (find_successor_request (JInt (node_id n))) = Some (resp, net1)"
    using j by (auto simp: join_def split: option.splits)
  from send_find_successor_typed[OF snd1 inv] have net1: "net1 = net" and tr: "typed_reply sha1 resp"
    by simp_all
  from tr show ?thesis
    unfolding typed_reply_def
  proof (elim disjE exE conjE)
    fix m
    assume "resp = error_dict m"
    with j snd1 net1 have "n' = n" "net' = net"
      by (simp_all add: join_def error_dict_def dict_idx_def)
    then show ?thesis by simp
  next
    fix d
    assume wf: "wf_descriptor sha1 d" and resp: "resp = success_successor d"
    from wf obtain h p where d: "d = node_descriptor (JInt (generate_id sha1 h p)) (JStr h) (JInt p)"
      by (auto simp: wf_descriptor_iff)
    from j snd1 net1 resp d obtain y where
      snd2: "send_request sha1 net (JStr h) (JInt p) (update_predecessor_request n) = Some (y, net')"
      and n': "n' = n\<lparr>successor := Some d\<rparr>"
      by (auto simp: join_def success_successor_def node_descriptor_def dict_idx_def split: option.splits)
    from send_request_keeps_topology[OF snd2] wf n' show ?thesis by simp
  qed
qed


lemma start_node_typed:
  assumes inv: "typed_net sha1 net" and st: "start_node sha1 net a p boot = Some net'"
  shows "typed_net sha1 net'"
proof -
  let ?n0 = "init_node sha1 a p"
  obtain n net1 where
    pre: "(case boot of
             Some (bip, bport) \<Rightarrow>
               if bip \<noteq> [] \<and> bport \<noteq> 0 then join sha1 net ?n0 bip bport
               else Some (bootstrap ?n0, net)
           | None \<Rightarrow> Some (bootstrap ?n0, net)) = Some (n, net1)"
    and net': "net' = start_server net1 n"
    using st by (auto simp: start_node_def Let_def split: option.splits)
  have "(keeps_topology net net1 \<and> ip n = a \<and> port n = p \<and> node_id n = generate_id sha1 a p \<and>
         pred_option (wf_descriptor sha1) (successor n)) \<or> (net1 = net \<and> n = bootstrap ?n0)"
    using pre join_typed[OF inv, of ?n0] by (auto split: option.splits if_splits)
  then have inv1: "typed_net sha1 net1"
    and n: "0 < port n \<Longrightarrow> port n \<le> 65535 \<Longrightarrow> typed_node sha1 (ip n, port n) n"
    using inv typed_keeps[OF inv]
    by (auto simp: typed_node_def bootstrap_def wf_self_descriptor)
  from typed_start_server[OF inv1 n] net' show ?thesis by simp
qed

lemma run_step_typed:
  "run_step sha1 net net' \<Longrightarrow> typed_net sha1 net \<Longrightarrow> typed_net sha1 net'"
proof (induction rule: run_step.induct)
  case (node net net')
  then show ?case
  proof (induction rule: net_step.induct)
    case (start net a p boot net')
    then show ?case by (rule start_node_typed[rotated])
  next
    case (request net a p req r net')
    from typed_keeps[OF request.prems send_request_keeps_topology[OF request.hyps]] show ?case
      by simp
  qed
next
  case (exit net ad)
  then show ?case by (auto simp: typed_net_def signal_handler_def)
qed

lemma reachable_run_typed:
  "reachable_run sha1 net \<Longrightarrow> typed_net sha1 net"
proof (induction rule: reachable_run.induct)
  case empty
  show ?case by (simp add: typed_net_def)
next
  case (step net net')
  then show ?case by (blast intro: run_step_typed)
qed


subsection \<open>Properties\<close>

text \<open>
  C29. In every network a run of node starts, client requests and process exits can
  reach, each node is listed under its own address, its identifier is
  \<^verbatim>\<open>generate_id\<close> of that address, its port is in \<open>1..65535\<close>, and its successor
  is unset or a descriptor \<^verbatim>\<open>{node_id, ip, port}\<close> whose identifier is the one
  derived from its address and whose port is in \<open>1..65535\<close>.
\<close>

theorem successor_always_descriptor:
  assumes run: "reachable_run sha1 net" and at: "net ad = Some n"
  shows "ad = (ip n, port n) \<and> node_id n = generate_id sha1 (ip n) (port n) \<and>
         0 < port n \<and> port n \<le> 65535 \<and>
         (successor n = None \<or>
          (\<exists>h p. successor n = Some (node_descriptor (JInt (generate_id sha1 h p)) (JStr h) (JInt p)) \<and>
                 0 < p \<and> p \<le> 65535))"
  using typed_netD[OF reachable_run_typed[OF run] at]
  by (cases "successor n") (simp_all add: typed_node_def wf_descriptor_iff)

theorem successor_always_descriptor_witness:
  "(''a'', 1) = (ip (bootstrap (init_node (\<lambda>s. length s) ''a'' 1)), port (bootstrap (init_node (\<lambda>s. length s) ''a'' 1))) \<and>
   node_id (bootstrap (init_node (\<lambda>s. length s) ''a'' 1)) = generate_id (\<lambda>s. length s) ''a'' 1 \<and>
   0 < port (bootstrap (init_node (\<lambda>s. length s) ''a'' 1)) \<and>
   port (bootstrap (init_node (\<lambda>s. length s) ''a'' 1)) \<le> 65535 \<and>
   (successor (bootstrap (init_node (\<lambda>s. length s) ''a'' 1)) = None \<or>
    (\<exists>h p. successor (bootstrap (init_node (\<lambda>s. length s) ''a'' 1)) =
             Some (node_descriptor (JInt (generate_id (\<lambda>s. length s) h p)) (JStr h) (JInt p)) \<and>
           0 < p \<and> p \<le> 65535))"
proof -
  have "reachable_run (\<lambda>s. length s) [(''a'', 1) \<mapsto> bootstrap (init_node (\<lambda>s. length s) ''a'' 1)]"
    using reachable_run_start[OF reachable_run.empty start_node_bootstrap[of Map.empty "''a''" 1]]
    by simp
  from successor_always_descriptor[OF this, of "(''a'', 1)"] show ?thesis by simp
qed

text \<open>
  C30. Also with exits, a lookup (\<^verbatim>\<open>find_successor\<close> sent through the network)
  that returns leaves every node as it was and answers either an error dict or
  \<^verbatim>\<open>{"status": "success", "successor": d}\<close> with \<open>d\<close> a well-formed descriptor,
  which is what \<^verbatim>\<open>join\<close> stores as the new successor.
\<close>

theorem lookup_reply_typed:
  assumes run: "reachable_run sha1 net"
    and snd: "send_request sha1 net a p (find_successor_request x) = Some (r, net')"
  shows "net' = net \<and>
         ((\<exists>m. r = error_dict m) \<or>
          (\<exists>h q. r = success_successor (node_descriptor (JInt (generate_id sha1 h q)) (JStr h) (JInt q)) \<and>
                 0 < q \<and> q \<le> 65535))"
  using send_find_successor_typed[OF snd reachable_run_typed[OF run]]
  by (auto simp: typed_reply_def wf_descriptor_iff)

theorem lookup_reply_typed_witness:
  "[(''a'', 1) \<mapsto> bootstrap (init_node (\<lambda>s. length s) ''a'' 1)] =
     [(''a'', 1) \<mapsto> bootstrap (init_node (\<lambda>s. length s) ''a'' 1)] \<and>
   ((\<exists>m. success_successor (self_descriptor (bootstrap (init_node (\<lambda>s. length s) ''a'' 1))) = error_dict m) \<or>
    (\<exists>h q. success_successor (self_descriptor (bootstrap (init_node (\<lambda>s. length s) ''a'' 1))) =
             success_successor (node_descriptor (JInt (generate_id (\<lambda>s. length s) h q)) (JStr h) (JInt q)) \<and>
           0 < q \<and> q \<le> 65535))"
proof -
  let ?net = "[(''a'', 1) \<mapsto> bootstrap (init_node (\<lambda>s. length s) ''a'' 1)]"
  have run: "reachable_run (\<lambda>s. length s) ?net"
    using reachable_run_start[OF reachable_run.empty start_node_bootstrap[of Map.empty "''a''" 1]]
    by simp
  have "send_request (\<lambda>s. length s) ?net (JStr ''a'') (JInt 1) (find_successor_request (JInt 5)) =
      Some (success_successor (self_descriptor (bootstrap (init_node (\<lambda>s. length s) ''a'' 1))), ?net)"
    using send_find_successor_at_root[of ?net "bootstrap (init_node (\<lambda>s. length s) ''a'' 1)"] bootstrap_root
    by simp
  from lookup_reply_typed[OF run this] show ?thesis by simp
qed

end
