(* ===== verification/Hops.thy ===== *)
theory Hops
  imports Network
begin

text \<open>
  \<^verbatim>\<open>send_request\<close> with a hop budget.  The code forwards a request along
  successors with no hop limit, which \<open>Network\<close> models as the least fixpoint
  \<open>send_request\<close> (\<open>None\<close> = forwarded forever).  \<open>send_hops k\<close> is the same
  request/relay loop cut off after \<open>k\<close> connections, computed by structural recursion
  on \<open>k\<close>.  The lemmas show that the fixpoint answers exactly what some budget
  answers, and that a budget that answers keeps answering the same with more hops:
  the unbounded loop of the code is the limit of the bounded one.
\<close>

text \<open>
  One connection of \<^verbatim>\<open>send_request\<close>: either the final answer (\<open>Inl\<close>) or the
  network and the (address, port, request) the contacted node forwards to (\<open>Inr\<close>).
\<close>

definition send_hop ::
  "digest \<Rightarrow> network \<Rightarrow> json \<Rightarrow> json \<Rightarrow> json \<Rightarrow> (json \<times> network) + (network \<times> json \<times> json \<times> json)" where
  "send_hop sha1 net a p request =
    (case connect_addr a p of
      Inl e \<Rightarrow> Inl (error_dict (exc_str e), net)
    | Inr ad \<Rightarrow>
       (case net ad of
         None \<Rightarrow> Inl (error_dict (exc_str ConnectionRefusedError), net)
       | Some n \<Rightarrow>
          (case handle_request sha1 n (Some request) of
            None \<Rightarrow> Inl (error_dict (exc_str JSONDecodeError), net)
          | Some (Respond r, n') \<Rightarrow> Inl (r, net(ad \<mapsto> n'))
          | Some (Relay fa fp freq, n') \<Rightarrow> Inr (net(ad \<mapsto> n'), fa, fp, freq))))"

fun send_hops :: "nat \<Rightarrow> digest \<Rightarrow> network \<Rightarrow> json \<Rightarrow> json \<Rightarrow> json \<Rightarrow> (json \<times> network) option" where
  "send_hops 0 sha1 net a p request = None"
| "send_hops (Suc k) sha1 net a p request =
    (case send_hop sha1 net a p request of
      Inl y \<Rightarrow> Some y
    | Inr (net', a', p', request') \<Rightarrow> send_hops k sha1 net' a' p' request')"

text \<open>The body of \<^verbatim>\<open>send_request\<close>, whatever continues the forwarding, is one hop.\<close>

lemma send_hop_body:
  "(case connect_addr a p of
      Inl e \<Rightarrow> Some (error_dict (exc_str e), net)
    | Inr ad \<Rightarrow>
       (case net ad of
         None \<Rightarrow> Some (error_dict (exc_str ConnectionRefusedError), net)
       | Some n \<Rightarrow>
          (case handle_request sha1 n (Some request) of
            None \<Rightarrow> Some (error_dict (exc_str JSONDecodeError), net)
          | Some (Respond r, n') \<Rightarrow> Some (r, net(ad \<mapsto> n'))
          | Some (Relay fa fp freq, n') \<Rightarrow> g (net(ad \<mapsto> n')) fa fp freq))) =
   (case send_hop sha1 net a p request of
      Inl y \<Rightarrow> Some y
    | Inr (net', a', p', request') \<Rightarrow> g net' a' p' request')"
  by (simp add: send_hop_def split: sum.split option.split handled.split prod.split)

lemma send_request_hop:
  "send_request sha1 net a p req =
    (case send_hop sha1 net a p req of
      Inl y \<Rightarrow> Some y
    | Inr (net', a', p', req') \<Rightarrow> send_request sha1 net' a' p' req')"
  by (subst send_request.simps) (rule send_hop_body)

lemma send_hops_sound:
  "send_hops k sha1 net a p req = Some y \<Longrightarrow> send_request sha1 net a p req = Some y"
proof (induction k arbitrary: net a p req)
  case 0
  then show ?case by simp
next
  case (Suc k)
  then show ?case
    by (subst send_request_hop) (auto split: sum.splits prod.splits)
qed

lemma send_hops_complete:
  assumes "send_request sha1 net a p req = Some y"
  shows "\<exists>k. send_hops k sha1 net a p req = Some y"
proof (rule send_request.raw_induct [where P = "\<lambda>s nt a p rq y. \<exists>k. send_hops k s nt a p rq = Some y", OF _ assms])
  fix f s nt a p rq y
  assume IH: "\<And>s nt a p rq y. f s nt a p rq = Some y \<Longrightarrow> \<exists>k. send_hops k s nt a p rq = Some y"
    and body: "(case connect_addr a p of
          Inl e \<Rightarrow> Some (error_dict (exc_str e), nt)
        | Inr ad \<Rightarrow>
           (case nt ad of
             None \<Rightarrow> Some (error_dict (exc_str ConnectionRefusedError), nt)
           | Some n \<Rightarrow>
              (case handle_request s n (Some rq) of
                None \<Rightarrow> Some (error_dict (exc_str JSONDecodeError), nt)
              | Some (Respond r, n') \<Rightarrow> Some (r, nt(ad \<mapsto> n'))
              | Some (Relay fa fp freq, n') \<Rightarrow> f s (nt(ad \<mapsto> n')) fa fp freq))) = Some y"
  show "\<exists>k. send_hops k s nt a p rq = Some y"
  proof (cases "send_hop s nt a p rq")
    case (Inl y')
    with body have "send_hops (Suc 0) s nt a p rq = Some y" by (simp add: send_hop_body)
    then show ?thesis ..
  next
    case (Inr fwd)
    obtain nt' a' p' rq' where fwd: "fwd = (nt', a', p', rq')" by (cases fwd) auto
    with Inr body have "f s nt' a' p' rq' = Some y" by (simp add: send_hop_body)
    from IH[OF this] obtain k where "send_hops k s nt' a' p' rq' = Some y" ..
    with Inr fwd have "send_hops (Suc k) s nt a p rq = Some y" by simp
    then show ?thesis ..
  qed
qed

lemma send_hops_mono:
  "send_hops k sha1 net a p req = Some y \<Longrightarrow> k \<le> k' \<Longrightarrow> send_hops k' sha1 net a p req = Some y"
proof (induction k arbitrary: k' net a p req)
  case 0
  then show ?case by simp
next
  case (Suc k)
  then obtain k'' where k': "k' = Suc k''" "k \<le> k''" by (cases k') auto
  with Suc show ?case by (auto split: sum.splits prod.splits)
qed


lemma send_hop_root:
  assumes inv: "star_inv sha1 net" and r: "net (ip r, port r) = Some r" and root: "root_node r"
  shows "send_hop sha1 net (JStr (ip r)) (JInt (port r)) (find_successor_request x) =
           Inl (success_successor (self_descriptor r), net)"
  using star_invD(3,4)[OF inv r] r root by (simp add: send_hop_def root_find_successor fun_upd_idem)

subsection \<open>Properties\<close>

text \<open>
  The unbounded forwarding of \<^verbatim>\<open>send_request\<close> (a least fixpoint) answers
  exactly what the hop-bounded loop \<open>send_hops\<close> answers for some budget.
\<close>

lemma send_request_hops_equiv:
  "send_request sha1 net a p req = Some y \<longleftrightarrow> (\<exists>k. send_hops k sha1 net a p req = Some y)"
  using send_hops_sound send_hops_complete by blast

text \<open>
  In every network that node starts and client requests build, a
  \<^verbatim>\<open>find_successor\<close> request is answered within two connections: the node
  contacted answers, or it forwards once to its successor, which is its own successor
  and answers.
\<close>

theorem lookup_within_two_connections:
  assumes "reachable sha1 net"
  shows "\<exists>y. send_hops 2 sha1 net a p (find_successor_request x) = Some y"
proof -
  have inv: "star_inv sha1 net" using reachable_star_inv[OF assms] .
  show ?thesis
  proof (cases "send_hop sha1 net a p (find_successor_request x)")
    case (Inl y)
    then show ?thesis by (simp add: numeral_2_eq_2)
  next
    case (Inr fwd)
    then obtain ad n where conn: "connect_addr a p = Inr ad" and at: "net ad = Some n"
      and fs: "\<exists>fa fp freq. find_successor n x = Inr (Relay fa fp freq)"
      by (auto simp: send_hop_def split: sum.splits option.splits handled.splits)
    from fs find_successor_unset[of n x] obtain r where r: "net (ip r, port r) = Some r"
      and root: "root_node r" and sn: "successor n = Some (self_descriptor r)"
      using star_invD(5)[OF inv at] by fastforce
    from fs find_successor_to_root[OF sn, of x]
    have "find_successor n x = Inr (Relay (JStr (ip r)) (JInt (port r)) (find_successor_request x))"
      by auto
    with conn at have "fwd = (net, JStr (ip r), JInt (port r), find_successor_request x)"
      using Inr by (simp add: send_hop_def fun_upd_idem)
    with Inr send_hop_root[OF inv r root, of x] show ?thesis
      by (simp add: numeral_2_eq_2)
  qed
qed


text \<open>
  C31. In every network that node starts and client requests build, a
  \<^verbatim>\<open>find_successor\<close> request sent to any address is answered within two TCP
  connections, with the answer of the unbounded \<^verbatim>\<open>send_request\<close>: the network is
  unchanged and the reply is an error dict or the success reply naming a listening
  node that is its own successor.
\<close>

theorem lookup_answered_in_two_connections:
  assumes "reachable sha1 net"
  shows "\<exists>resp. send_hops 2 sha1 net a p (find_successor_request x) = Some (resp, net) \<and>
                lookup_answer net resp"
proof -
  obtain y where y: "send_hops 2 sha1 net a p (find_successor_request x) = Some y"
    using lookup_within_two_connections[OF assms] by blast
  obtain resp where sr: "send_request sha1 net a p (find_successor_request x) = Some (resp, net)"
    and ans: "lookup_answer net resp"
    using send_find_successor_answer[OF reachable_star_inv[OF assms]] by blast
  from send_hops_sound[OF y] sr have "y = (resp, net)" by simp
  with y ans show ?thesis by blast
qed

theorem lookup_answered_in_two_connections_witness:
  "\<exists>resp. send_hops 2 (\<lambda>s. length s) [(''10.0.0.1'', 5000) \<mapsto> bootstrap (init_node (\<lambda>s. length s) ''10.0.0.1'' 5000)]
         (JStr ''10.0.0.1'') (JInt 5000) (find_successor_request (JInt 7)) =
       Some (resp, [(''10.0.0.1'', 5000) \<mapsto> bootstrap (init_node (\<lambda>s. length s) ''10.0.0.1'' 5000)]) \<and>
     lookup_answer [(''10.0.0.1'', 5000) \<mapsto> bootstrap (init_node (\<lambda>s. length s) ''10.0.0.1'' 5000)] resp"
proof -
  have r: "reachable (\<lambda>s. length s) [(''10.0.0.1'', 5000) \<mapsto> bootstrap (init_node (\<lambda>s. length s) ''10.0.0.1'' 5000)]"
    by (rule reachable.step[OF reachable.empty net_step.start[OF demo_start]])
  show ?thesis by (rule lookup_answered_in_two_connections[OF r])
qed

end
