(* ===== verification/Threads.thy ===== *)
theory Threads
  imports Store
begin

text \<open>
  Thread per connection (\<^verbatim>\<open>start_server\<close>, line 70: every accepted connection
  runs \<^verbatim>\<open>handle_request\<close> on a new thread) on one node's \<^verbatim>\<open>data_store\<close>.
  Under the interpreter lock each dict operation is atomic, but the statements of a
  handler are not: \<^verbatim>\<open>query\<close> (lines 203-208) tests \<^verbatim>\<open>hashed_key in
  self.data_store\<close> and then reads \<^verbatim>\<open>self.data_store[hashed_key]\<close>, and
  \<^verbatim>\<open>delete\<close> (lines 210-216) tests and then runs \<^verbatim>\<open>del\<close>; \<^verbatim>\<open>insert\<close>
  (lines 197-201) is the single assignment.  A handler thread is a program counter
  \<open>handler_pc\<close> over these statements; \<open>tstep\<close> runs its next statement against the
  shared store.  A \<^verbatim>\<open>KeyError\<close> of the second statement is caught by
  \<^verbatim>\<open>handle_request\<close>, which closes the connection without a reply
  (\<open>Dropped\<close>).  Hashing and formatting touch no shared state and are folded into
  the statements.  An interleaving is an explicit schedule, the list of thread
  indices in the order they run (\<open>run_sched\<close>); a finished thread's turn is a no-op.
\<close>

datatype handler_pc =
    Ins string json
  | QCheck string
  | QRead string
  | DCheck string
  | DDel string
  | Done json
  | Dropped

fun tstep :: "digest \<Rightarrow> store \<Rightarrow> handler_pc \<Rightarrow> (store \<times> handler_pc) option" where
  "tstep sha1 ds (Ins k v) =
     Some (ds(hash_key sha1 k \<mapsto> v),
           Done (JObj [(''status'', JStr ''success''), (''message'', JStr (''Inserted '' @ k @ '' -> '' @ py_str v))]))"
| "tstep sha1 ds (QCheck k) =
     Some (ds, if ds (hash_key sha1 k) \<noteq> None then QRead k else Done (error_dict ''Key not found''))"
| "tstep sha1 ds (QRead k) =
     Some (ds, case ds (hash_key sha1 k) of
                 Some v \<Rightarrow> Done (JObj [(''status'', JStr ''success''), (''value'', v)])
               | None \<Rightarrow> Dropped)"
| "tstep sha1 ds (DCheck k) =
     Some (ds, if ds (hash_key sha1 k) \<noteq> None then DDel k else Done (error_dict ''Key not found''))"
| "tstep sha1 ds (DDel k) =
     (case ds (hash_key sha1 k) of
       Some _ \<Rightarrow> Some (ds(hash_key sha1 k := None),
                       Done (JObj [(''status'', JStr ''success''), (''message'', JStr (''Deleted '' @ k))]))
     | None \<Rightarrow> Some (ds, Dropped))"
| "tstep sha1 ds (Done r) = None"
| "tstep sha1 ds Dropped = None"

fun run_sched :: "digest \<Rightarrow> nat list \<Rightarrow> store \<times> handler_pc list \<Rightarrow> store \<times> handler_pc list" where
  "run_sched sha1 [] s = s"
| "run_sched sha1 (i # is) (ds, ts) =
     (if i < length ts then
        (case tstep sha1 ds (ts ! i) of
          None \<Rightarrow> run_sched sha1 is (ds, ts)
        | Some (ds', t') \<Rightarrow> run_sched sha1 is (ds', ts[i := t']))
      else run_sched sha1 is (ds, ts))"

text \<open>The handler a request starts, and what it does when it runs alone (the \<open>Store\<close> model).\<close>

fun atomic_op :: "digest \<Rightarrow> store \<Rightarrow> handler_pc \<Rightarrow> py_exc + (json \<times> store)" where
  "atomic_op sha1 ds (Ins k v) = dht_insert sha1 ds (JStr k) v"
| "atomic_op sha1 ds (QCheck k) = dht_query sha1 ds (JStr k)"
| "atomic_op sha1 ds (DCheck k) = dht_delete sha1 ds (JStr k)"
| "atomic_op sha1 ds _ = Inl ValueError"

fun fresh :: "handler_pc \<Rightarrow> bool" where
  "fresh (Ins k v) = True"
| "fresh (QCheck k) = True"
| "fresh (DCheck k) = True"
| "fresh _ = False"

text \<open>The requests served one after another, each handler run to its end before the next.\<close>

fun run_atomic :: "digest \<Rightarrow> store \<Rightarrow> handler_pc list \<Rightarrow> json list \<times> store" where
  "run_atomic sha1 ds [] = ([], ds)"
| "run_atomic sha1 ds (t # ts) =
     (case atomic_op sha1 ds t of
       Inl e \<Rightarrow> ([], ds)
     | Inr (r, ds') \<Rightarrow> (case run_atomic sha1 ds' ts of (rs, ds'') \<Rightarrow> (r # rs, ds'')))"

definition serial :: "nat \<Rightarrow> nat \<Rightarrow> nat list" where
  "serial m n = concat (map (\<lambda>i. [i, i]) [m..<m + n])"

fun no_delete :: "handler_pc \<Rightarrow> bool" where
  "no_delete (DCheck k) = False"
| "no_delete (DDel k) = False"
| "no_delete _ = True"

text \<open>Threads without \<^verbatim>\<open>delete\<close>: every pending read finds its key.\<close>

definition reads_safe :: "digest \<Rightarrow> store \<Rightarrow> handler_pc list \<Rightarrow> bool" where
  "reads_safe sha1 ds ts \<longleftrightarrow>
     (\<forall>t \<in> set ts. no_delete t \<and> t \<noteq> Dropped \<and> (\<forall>k. t = QRead k \<longrightarrow> ds (hash_key sha1 k) \<noteq> None))"

text \<open>
  The states one \<^verbatim>\<open>insert\<close> thread and one \<^verbatim>\<open>delete\<close> thread of the same key
  can reach from the store \<open>ds\<close>, under any schedule.
\<close>

definition ins_del_states :: "digest \<Rightarrow> store \<Rightarrow> string \<Rightarrow> json \<Rightarrow> (store \<times> handler_pc list) set" where
  "ins_del_states sha1 ds k v =
    (let h = hash_key sha1 k;
         ri = JObj [(''status'', JStr ''success''), (''message'', JStr (''Inserted '' @ k @ '' -> '' @ py_str v))];
         rd = JObj [(''status'', JStr ''success''), (''message'', JStr (''Deleted '' @ k))]
     in {(ds, [Ins k v, DCheck k]), (ds(h \<mapsto> v), [Done ri, DCheck k]), (ds(h \<mapsto> v), [Done ri, DDel k]),
         ((ds(h \<mapsto> v))(h := None), [Done ri, Done rd])} \<union>
        (if ds h = None
         then {(ds, [Ins k v, Done (error_dict ''Key not found'')]),
               (ds(h \<mapsto> v), [Done ri, Done (error_dict ''Key not found'')])}
         else {(ds, [Ins k v, DDel k]), (ds(h := None), [Ins k v, Done rd]),
               ((ds(h := None))(h \<mapsto> v), [Done ri, Done rd])}))"

subsection \<open>Schedules\<close>

lemma run_sched_append:
  "run_sched sha1 (xs @ ys) s = run_sched sha1 ys (run_sched sha1 xs s)"
proof (induction xs arbitrary: s)
  case Nil
  then show ?case by simp
next
  case (Cons i xs)
  then show ?case by (cases s) (simp split: option.split)
qed

lemma run_solo:
  assumes i: "i < length ts" "ts ! i = t" and op: "atomic_op sha1 ds t = Inr (r, ds')"
  shows "run_sched sha1 (i # i # rest) (ds, ts) = run_sched sha1 rest (ds', ts[i := Done r])"
  using op i by (cases t) (auto simp: dht_insert_def dht_query_def dht_delete_def key_bytes_def
                                split: option.splits if_splits)

lemma atomic_op_fresh:
  "fresh t \<Longrightarrow> \<exists>r ds'. atomic_op sha1 ds t = Inr (r, ds')"
  by (cases t) (auto simp: dht_insert_def dht_query_def dht_delete_def key_bytes_def split: option.splits)

lemma serial_Suc: "serial m (Suc n) = m # m # serial (Suc m) n"
  by (simp add: serial_def upt_rec)

lemma run_serial:
  assumes "\<forall>t \<in> set ts. fresh t"
  shows "run_sched sha1 (serial (length ps) (length ts)) (ds, map Done ps @ ts) =
           (snd (run_atomic sha1 ds ts), map Done (ps @ fst (run_atomic sha1 ds ts)))"
  using assms
proof (induction ts arbitrary: ps ds)
  case Nil
  then show ?case by (simp add: serial_def)
next
  case (Cons t ts)
  obtain r ds' where op: "atomic_op sha1 ds t = Inr (r, ds')"
    using atomic_op_fresh Cons.prems by fastforce
  have "run_sched sha1 (serial (length ps) (length (t # ts))) (ds, map Done ps @ t # ts) =
        run_sched sha1 (serial (Suc (length ps)) (length ts)) (ds', (map Done ps @ t # ts)[length ps := Done r])"
    unfolding length_Cons serial_Suc by (rule run_solo[OF _ _ op]) (simp_all add: nth_append)
  also have "(map Done ps @ t # ts)[length ps := Done r] = map Done (ps @ [r]) @ ts"
    by (simp add: list_update_append)
  also have "run_sched sha1 (serial (Suc (length ps)) (length ts)) (ds', map Done (ps @ [r]) @ ts) =
      (snd (run_atomic sha1 ds' ts), map Done (ps @ r # fst (run_atomic sha1 ds' ts)))"
    using Cons.IH[of "ps @ [r]" ds'] Cons.prems by simp
  finally show ?case
    using op by (simp split: prod.split)
qed


subsection \<open>Threads without a delete never lose a connection\<close>

lemma tstep_reads_safe:
  assumes inv: "reads_safe sha1 ds ts" and i: "i < length ts"
    and st: "tstep sha1 ds (ts ! i) = Some (ds', t')"
  shows "reads_safe sha1 ds' (ts[i := t'])"
proof -
  have ti: "ts ! i \<in> set ts" using i by simp
  have keep: "\<forall>t \<in> set ts. \<forall>k. t = QRead k \<longrightarrow> ds' (hash_key sha1 k) \<noteq> None"
    and new: "no_delete t' \<and> t' \<noteq> Dropped \<and> (\<forall>k. t' = QRead k \<longrightarrow> ds' (hash_key sha1 k) \<noteq> None)"
    using inv ti st by (cases "ts ! i"; auto simp: reads_safe_def split: option.splits if_splits)+
  have "set (ts[i := t']) \<subseteq> insert t' (set ts)" by (rule set_update_subset_insert)
  with inv keep new show ?thesis unfolding reads_safe_def by blast
qed

lemma run_reads_safe:
  "reads_safe sha1 ds ts \<Longrightarrow> run_sched sha1 sched (ds, ts) = (ds', ts') \<Longrightarrow> reads_safe sha1 ds' ts'"
proof (induction sched arbitrary: ds ts)
  case Nil
  then show ?case by simp
next
  case (Cons i sched)
  show ?case
  proof (cases "i < length ts")
    case True
    then show ?thesis
      using Cons tstep_reads_safe[OF Cons.prems(1) True]
      by (auto split: option.splits)
  next
    case False
    with Cons show ?thesis by simp
  qed
qed


text \<open>
  Serving the store requests one at a time is what the atomic \<open>Store\<close> model
  says: under the serial schedule (each handler thread runs both its statements before
  the next starts), the final store and the replies are those of applying
  \<open>dht_insert\<close>, \<open>dht_query\<close> and \<open>dht_delete\<close> in order.
\<close>

lemma serial_schedule_refines_atomic:
  assumes "\<forall>t \<in> set ts. fresh t"
  shows "run_sched sha1 (serial 0 (length ts)) (ds, ts) =
           (snd (run_atomic sha1 ds ts), map Done (fst (run_atomic sha1 ds ts)))"
  using run_serial[OF assms, of sha1 "[]" ds] by simp

subsection \<open>An insert and a delete of one key\<close>

lemma ins_del_step:
  assumes "s \<in> ins_del_states sha1 ds k v"
  shows "run_sched sha1 [i] s \<in> ins_del_states sha1 ds k v"
proof (cases "i < 2")
  case True
  then consider "i = 0" | "i = 1" by linarith
  then show ?thesis
    using assms by cases (auto simp: ins_del_states_def Let_def split: if_splits)
next
  case False
  obtain ds' ts where "s = (ds', ts)" by force
  with assms False show ?thesis by (auto simp: ins_del_states_def Let_def split: if_splits)
qed

lemma ins_del_run:
  "s \<in> ins_del_states sha1 ds k v \<Longrightarrow> run_sched sha1 sch s \<in> ins_del_states sha1 ds k v"
proof (induction sch arbitrary: s)
  case (Cons i sch)
  have "run_sched sha1 (i # sch) s = run_sched sha1 sch (run_sched sha1 [i] s)"
    using run_sched_append[of sha1 "[i]" sch s] by simp
  with Cons.IH[OF ins_del_step[OF Cons.prems]] show ?case by simp
qed simp

subsection \<open>Properties\<close>

text \<open>
  C33. An \<^verbatim>\<open>insert\<close> and a \<^verbatim>\<open>delete\<close> of the same key, on two threads, are
  linearizable: whatever the interleaving of the delete's membership test and
  \<^verbatim>\<open>del\<close> with the insert's assignment, once both have answered, the store and
  the two replies are those of serving the insert first or the delete first.  (Unlike a query racing a delete, C34.)
\<close>

theorem insert_delete_linearizable:
  assumes "snd (run_sched sha1 sch (ds, [Ins k v, DCheck k])) = [Done rins, Done rdel]"
  shows "run_sched sha1 sch (ds, [Ins k v, DCheck k]) \<in>
           {run_sched sha1 [0, 1, 1] (ds, [Ins k v, DCheck k]), run_sched sha1 [1, 1, 0] (ds, [Ins k v, DCheck k])}"
proof -
  have "run_sched sha1 sch (ds, [Ins k v, DCheck k]) \<in> ins_del_states sha1 ds k v"
    by (rule ins_del_run) (simp add: ins_del_states_def Let_def)
  with assms show ?thesis by (auto simp: ins_del_states_def Let_def split: if_splits)
qed

theorem insert_delete_linearizable_witness:
  "run_sched (\<lambda>s. length s) [1, 0, 1] ([4 \<mapsto> JStr ''a.mp3''], [Ins ''song'' (JStr ''b.mp3''), DCheck ''song'']) \<in>
     {run_sched (\<lambda>s. length s) [0, 1, 1] ([4 \<mapsto> JStr ''a.mp3''], [Ins ''song'' (JStr ''b.mp3''), DCheck ''song'']),
      run_sched (\<lambda>s. length s) [1, 1, 0] ([4 \<mapsto> JStr ''a.mp3''], [Ins ''song'' (JStr ''b.mp3''), DCheck ''song''])}"
  by (rule insert_delete_linearizable[where rins = "JObj [(''status'', JStr ''success''),
        (''message'', JStr (''Inserted song -> '' @ py_str (JStr ''b.mp3'')))]"
      and rdel = "JObj [(''status'', JStr ''success''), (''message'', JStr ''Deleted song'')]"])
     (simp add: hash_key_def)

text \<open>
  C34. A \<^verbatim>\<open>query\<close> racing a \<^verbatim>\<open>delete\<close> of a stored key: if the query's membership
  test runs, then the whole delete, then the query's read, the read raises
  \<^verbatim>\<open>KeyError\<close> and the querying client's connection is closed without any reply,
  although the key was present when the query started; the delete succeeds.  No serial
  order of the two requests closes a connection (\<open>serial_schedule_refines_atomic\<close>).
\<close>

theorem query_delete_race:
  assumes "ds (hash_key sha1 k) = Some v"
  shows "run_sched sha1 [0, 1, 1, 0] (ds, [QCheck k, DCheck k]) =
           (ds(hash_key sha1 k := None),
            [Dropped, Done (JObj [(''status'', JStr ''success''), (''message'', JStr (''Deleted '' @ k))])])"
  using assms by simp

theorem query_delete_race_witness:
  "run_sched (\<lambda>s. length s) [0, 1, 1, 0] ([1 \<mapsto> JStr ''v''], [QCheck ''k'', DCheck ''k'']) =
     ([1 \<mapsto> JStr ''v''](hash_key (\<lambda>s. length s) ''k'' := None),
      [Dropped, Done (JObj [(''status'', JStr ''success''), (''message'', JStr (''Deleted '' @ ''k''))])])"
  by (rule query_delete_race) (simp add: hash_key_def)

text \<open>
  C35. Two concurrent \<^verbatim>\<open>delete\<close>s of a stored key whose membership tests both run
  before either \<^verbatim>\<open>del\<close>: the first deletes and answers success, the second's
  \<^verbatim>\<open>del\<close> raises \<^verbatim>\<open>KeyError\<close> and its client gets no reply at all, where served
  one after the other it would get \<^verbatim>\<open>"Key not found"\<close>.
\<close>

theorem delete_delete_race:
  assumes "ds (hash_key sha1 k) = Some v"
  shows "run_sched sha1 [0, 1, 0, 1] (ds, [DCheck k, DCheck k]) =
           (ds(hash_key sha1 k := None),
            [Done (JObj [(''status'', JStr ''success''), (''message'', JStr (''Deleted '' @ k))]), Dropped]) \<and>
         run_sched sha1 [0, 0, 1, 1] (ds, [DCheck k, DCheck k]) =
           (ds(hash_key sha1 k := None),
            [Done (JObj [(''status'', JStr ''success''), (''message'', JStr (''Deleted '' @ k))]),
             Done (error_dict ''Key not found'')])"
  using assms by simp

theorem delete_delete_race_witness:
  "run_sched (\<lambda>s. length s) [0, 1, 0, 1] ([1 \<mapsto> JStr ''v''], [DCheck ''k'', DCheck ''k'']) =
     ([1 \<mapsto> JStr ''v''](hash_key (\<lambda>s. length s) ''k'' := None),
      [Done (JObj [(''status'', JStr ''success''), (''message'', JStr (''Deleted '' @ ''k''))]), Dropped]) \<and>
   run_sched (\<lambda>s. length s) [0, 0, 1, 1] ([1 \<mapsto> JStr ''v''], [DCheck ''k'', DCheck ''k'']) =
     ([1 \<mapsto> JStr ''v''](hash_key (\<lambda>s. length s) ''k'' := None),
      [Done (JObj [(''status'', JStr ''success''), (''message'', JStr (''Deleted '' @ ''k''))]),
       Done (error_dict ''Key not found'')])"
  by (rule delete_delete_race) (simp add: hash_key_def)

text \<open>
  C36. Deletes are the only cause of lost connections among store requests: for any
  number of concurrent \<^verbatim>\<open>insert\<close> and \<^verbatim>\<open>query\<close> handlers and any interleaving
  of their statements, no handler ends with its connection closed unanswered.
\<close>

theorem no_delete_no_dropped_reply:
  assumes "\<forall>t \<in> set ts. fresh t \<and> no_delete t"
  shows "Dropped \<notin> set (snd (run_sched sha1 sched (ds, ts)))"
proof -
  have "reads_safe sha1 ds ts"
    using assms by (auto simp: reads_safe_def elim: fresh.elims)
  from run_reads_safe[OF this, of sched] show ?thesis
    by (cases "run_sched sha1 sched (ds, ts)") (auto simp: reads_safe_def)
qed

theorem no_delete_no_dropped_reply_witness:
  "Dropped \<notin> set (snd (run_sched (\<lambda>s. length s) [0, 1, 2, 1, 0, 2]
                 (Map.empty, [QCheck ''k'', Ins ''k'' (JInt 1), QCheck ''k''])))"
  by (rule no_delete_no_dropped_reply) simp

end
