(* ===== verification/Json_Wire.thy ===== *)
theory Json_Wire
  imports Command_Line "HOL-Library.AList"
begin

text \<open>
  The wire (\<^verbatim>\<open>send_request\<close>, lines 151-154, and \<^verbatim>\<open>handle_request\<close>, lines
  164-169): a message is \<^verbatim>\<open>json.dumps(obj).encode()\<close>, sent in one
  \<^verbatim>\<open>send\<close>, and the peer reads one \<^verbatim>\<open>recv(1024)\<close> and runs
  \<^verbatim>\<open>json.loads\<close> on it.  \<open>json_dumps\<close> is Python's encoder with its defaults
  (\<^verbatim>\<open>ensure_ascii\<close>, separators \<^verbatim>\<open>", "\<close> and \<^verbatim>\<open>": "\<close>), \<open>json_loads\<close>
  its decoder (\<^verbatim>\<open>json.decoder\<close> with the C scanner, \<^verbatim>\<open>strict=True\<close>), both on
  the values of \<open>json\<close>, whose strings hold code points below 256.  What the decoder
  would produce outside those values (floats, \<^verbatim>\<open>NaN\<close>, \<^verbatim>\<open>Infinity\<close>, a
  \<^verbatim>\<open>\uXXXX\<close> escape above \<open>0xFF\<close>) is the outcome \<open>Unmodelled\<close>, about which
  nothing is claimed; every other failure is \<^verbatim>\<open>JSONDecodeError\<close>.  The decoder
  is written with fuel (twice the input length plus one): each nesting level and each
  element consumes input, and \<open>json_loads_fuel\<close> proves that the fuel never
  runs out.  \<^verbatim>\<open>recv(1024)\<close> is read as the first 1024 bytes of what was
  sent (one segment); the encoder's output is ASCII, so bytes are characters.
\<close>

datatype decode_err = DecodeError | Unmodelled | OutOfFuel

subsection \<open>\<^verbatim>\<open>json.dumps\<close>\<close>

definition hex4 :: "nat \<Rightarrow> string" where
  "hex4 n = [hex_digit (n div 4096 mod 16), hex_digit (n div 256 mod 16), hex_digit (n div 16 mod 16),
             hex_digit (n mod 16)]"

text \<open>One character of a string literal under \<^verbatim>\<open>ensure_ascii\<close> (\<^verbatim>\<open>ESCAPE_DCT\<close>).\<close>

definition esc_char :: "char \<Rightarrow> string" where
  "esc_char c =
    (if c = CHR 0x5C then [CHR 0x5C, CHR 0x5C]
     else if c = CHR 0x22 then [CHR 0x5C, CHR 0x22]
     else if c = CHR 0x08 then [CHR 0x5C, CHR ''b'']
     else if c = CHR 0x0C then [CHR 0x5C, CHR ''f'']
     else if c = CHR 0x0A then [CHR 0x5C, CHR ''n'']
     else if c = CHR 0x0D then [CHR 0x5C, CHR ''r'']
     else if c = CHR 0x09 then [CHR 0x5C, CHR ''t'']
     else if 32 \<le> (of_char c :: nat) \<and> (of_char c :: nat) \<le> 126 then [c]
     else CHR 0x5C # CHR ''u'' # hex4 (of_char c))"

definition dump_str :: "string \<Rightarrow> string" where
  "dump_str s = CHR 0x22 # concat (map esc_char s) @ [CHR 0x22]"

fun json_dumps :: "json \<Rightarrow> string" where
  "json_dumps JNull = ''null''"
| "json_dumps (JBool b) = (if b then ''true'' else ''false'')"
| "json_dumps (JInt i) = show_int i"
| "json_dumps (JStr s) = dump_str s"
| "json_dumps (JList xs) = ''['' @ join_with '', '' (map json_dumps xs) @ '']''"
| "json_dumps (JObj kvs) =
     ''{'' @ join_with '', '' (map (\<lambda>(k, v). dump_str k @ '': '' @ json_dumps v) kvs) @ ''}''"

subsection \<open>\<^verbatim>\<open>json.loads\<close>\<close>

definition json_ws :: "char \<Rightarrow> bool" where
  "json_ws c = (c = CHR 0x20 \<or> c = CHR 0x09 \<or> c = CHR 0x0A \<or> c = CHR 0x0D)"

definition skip_ws :: "string \<Rightarrow> string" where
  "skip_ws s = dropWhile json_ws s"

definition dec_digit :: "char \<Rightarrow> bool" where
  "dec_digit c = (48 \<le> (of_char c :: nat) \<and> (of_char c :: nat) \<le> 57)"

definition hex_val :: "char \<Rightarrow> nat option" where
  "hex_val c =
    (let n = (of_char c :: nat) in
     if 48 \<le> n \<and> n \<le> 57 then Some (n - 48)
     else if 97 \<le> n \<and> n \<le> 102 then Some (n - 87)
     else if 65 \<le> n \<and> n \<le> 70 then Some (n - 55)
     else None)"

text \<open>The four hex digits of a \<^verbatim>\<open>\uXXXX\<close> escape.\<close>

definition hex4_val :: "char \<Rightarrow> char \<Rightarrow> char \<Rightarrow> char \<Rightarrow> nat option" where
  "hex4_val a b c d =
    (case (hex_val a, hex_val b, hex_val c, hex_val d) of
      (Some x, Some y, Some z, Some w) \<Rightarrow> Some (4096 * x + 256 * y + 16 * z + w)
    | _ \<Rightarrow> None)"

definition simple_escape :: "char \<Rightarrow> char option" where
  "simple_escape e =
    (if e = CHR 0x22 \<or> e = CHR 0x5C \<or> e = CHR ''/'' then Some e
     else if e = CHR ''b'' then Some (CHR 0x08)
     else if e = CHR ''f'' then Some (CHR 0x0C)
     else if e = CHR ''n'' then Some (CHR 0x0A)
     else if e = CHR ''r'' then Some (CHR 0x0D)
     else if e = CHR ''t'' then Some (CHR 0x09)
     else None)"

text \<open>\<^verbatim>\<open>scanstring\<close> after the opening quote; \<open>acc\<close> holds the characters read, reversed.\<close>

fun scan_str :: "string \<Rightarrow> string \<Rightarrow> decode_err + (string \<times> string)" where
  "scan_str acc [] = Inl DecodeError"
| "scan_str acc (c # cs) =
     (if c = CHR 0x22 then Inr (rev acc, cs)
      else if c = CHR 0x5C then
        (case cs of
          [] \<Rightarrow> Inl DecodeError
        | e # r \<Rightarrow>
            if e = CHR ''u'' then
              (case r of
                a # b # c # d # r' \<Rightarrow>
                  (case hex4_val a b c d of
                    None \<Rightarrow> Inl DecodeError
                  | Some n \<Rightarrow> if n < 256 then scan_str (char_of n # acc) r' else Inl Unmodelled)
              | _ \<Rightarrow> Inl DecodeError)
            else
              (case simple_escape e of
                None \<Rightarrow> Inl DecodeError
              | Some ch \<Rightarrow> scan_str (ch # acc) r))
      else if (of_char c :: nat) < 32 then Inl DecodeError
      else scan_str (c # acc) cs)"

text \<open>
  \<^verbatim>\<open>NUMBER_RE\<close>, \<^verbatim>\<open>(-?(?:0|[1-9]\d*))(\.\d+)?([eE][-+]?\d+)?\<close>: an integer
  part, and a float when a fraction or an exponent follows.
\<close>

definition digits_value :: "string \<Rightarrow> nat" where
  "digits_value ds = foldl (\<lambda>a c. 10 * a + (of_char c - 48)) 0 ds"

definition float_tail :: "string \<Rightarrow> bool" where
  "float_tail r =
    (case r of
      c # d # r' \<Rightarrow>
        (c = CHR ''.'' \<and> dec_digit d) \<or>
        ((c = CHR ''e'' \<or> c = CHR ''E'') \<and>
         (dec_digit d \<or> ((d = CHR ''+'' \<or> d = CHR ''-'') \<and> r' \<noteq> [] \<and> dec_digit (hd r'))))
    | _ \<Rightarrow> False)"

definition scan_uint :: "string \<Rightarrow> (nat \<times> string) option" where
  "scan_uint s =
    (case s of
      c # r \<Rightarrow>
        if c = CHR ''0'' then Some (0, r)
        else if dec_digit c then Some (digits_value (c # takeWhile dec_digit r), dropWhile dec_digit r)
        else None
    | [] \<Rightarrow> None)"

definition scan_number :: "string \<Rightarrow> decode_err + (json \<times> string)" where
  "scan_number s =
    (let (neg, t) = (case s of c # r \<Rightarrow> if c = CHR ''-'' then (True, r) else (False, s) | [] \<Rightarrow> (False, s))
     in case scan_uint t of
          None \<Rightarrow> Inl DecodeError
        | Some (n, r) \<Rightarrow>
            if float_tail r then Inl Unmodelled
            else Inr (JInt (if neg then - int n else int n), r))"

text \<open>\<^verbatim>\<open>scan_once\<close>, \<^verbatim>\<open>JSONObject\<close> and \<^verbatim>\<open>JSONArray\<close>; a repeated key keeps its
  first place and takes the last value, as \<^verbatim>\<open>dict(pairs)\<close> does.\<close>

fun scan_value :: "nat \<Rightarrow> string \<Rightarrow> decode_err + (json \<times> string)"
and scan_members :: "nat \<Rightarrow> (string \<times> json) list \<Rightarrow> string \<Rightarrow> decode_err + (json \<times> string)"
and scan_elems :: "nat \<Rightarrow> json list \<Rightarrow> string \<Rightarrow> decode_err + (json \<times> string)" where
  "scan_value 0 s = Inl OutOfFuel"
| "scan_value (Suc k) s =
     (case s of
       [] \<Rightarrow> Inl DecodeError
     | c # r \<Rightarrow>
         if c = CHR 0x22 then
           (case scan_str [] r of Inl e \<Rightarrow> Inl e | Inr (str, r') \<Rightarrow> Inr (JStr str, r'))
         else if c = CHR ''{'' then
           (case skip_ws r of
             [] \<Rightarrow> Inl DecodeError
           | c2 # r2 \<Rightarrow>
               if c2 = CHR ''}'' then Inr (JObj [], r2)
               else if c2 = CHR 0x22 then scan_members k [] r2
               else Inl DecodeError)
         else if c = CHR ''['' then
           (case skip_ws r of
             [] \<Rightarrow> Inl DecodeError
           | c2 # r2 \<Rightarrow> if c2 = CHR '']'' then Inr (JList [], r2) else scan_elems k [] (c2 # r2))
         else if take 4 s = ''null'' then Inr (JNull, drop 4 s)
         else if take 4 s = ''true'' then Inr (JBool True, drop 4 s)
         else if take 5 s = ''false'' then Inr (JBool False, drop 5 s)
         else if take 3 s = ''NaN'' \<or> take 8 s = ''Infinity'' \<or> take 9 s = ''-Infinity'' then Inl Unmodelled
         else scan_number s)"
| "scan_members 0 acc s = Inl OutOfFuel"
| "scan_members (Suc k) acc s =
     (case scan_str [] s of
       Inl e \<Rightarrow> Inl e
     | Inr (key, r) \<Rightarrow>
         (case skip_ws r of
           c # r2 \<Rightarrow>
             if c = CHR '':'' then
               (case scan_value k (skip_ws r2) of
                 Inl e \<Rightarrow> Inl e
               | Inr (v, r3) \<Rightarrow>
                   (case skip_ws r3 of
                     d # r4 \<Rightarrow>
                       if d = CHR ''}'' then Inr (JObj (AList.update key v acc), r4)
                       else if d = CHR '','' then
                         (case skip_ws r4 of
                           q # r5 \<Rightarrow> if q = CHR 0x22 then scan_members k (AList.update key v acc) r5
                                    else Inl DecodeError
                         | [] \<Rightarrow> Inl DecodeError)
                       else Inl DecodeError
                   | [] \<Rightarrow> Inl DecodeError))
             else Inl DecodeError
         | [] \<Rightarrow> Inl DecodeError))"
| "scan_elems 0 acc s = Inl OutOfFuel"
| "scan_elems (Suc k) acc s =
     (case scan_value k s of
       Inl e \<Rightarrow> Inl e
     | Inr (v, r) \<Rightarrow>
         (case skip_ws r of
           d # r2 \<Rightarrow>
             if d = CHR '']'' then Inr (JList (acc @ [v]), r2)
             else if d = CHR '','' then scan_elems k (acc @ [v]) (skip_ws r2)
             else Inl DecodeError
         | [] \<Rightarrow> Inl DecodeError))"

text \<open>\<^verbatim>\<open>JSONDecoder.decode\<close>: whitespace, one value, whitespace, end of input.\<close>

definition json_loads :: "string \<Rightarrow> decode_err + json" where
  "json_loads s =
    (case scan_value (Suc (2 * length s)) (skip_ws s) of
      Inl e \<Rightarrow> Inl e
    | Inr (v, r) \<Rightarrow> if skip_ws r = [] then Inr v else Inl DecodeError)"

subsection \<open>The wire\<close>

text \<open>
  \<^verbatim>\<open>data = conn.recv(1024).decode()\<close>, \<^verbatim>\<open>if data:\<close>,
  \<^verbatim>\<open>request = json.loads(data)\<close> in \<^verbatim>\<open>handle_request\<close>: \<open>Inr (Some req)\<close>
  is the request the handler processes, \<open>Inr None\<close> a connection closed without
  reading one (nothing received, or the decode failed and the exception was caught).
  Bytes outside ASCII, which no sender of this program produces, are outside the model.
\<close>

definition recv_request :: "string \<Rightarrow> decode_err + json option" where
  "recv_request sent =
    (let data = take 1024 sent in
     if \<not> list_all (\<lambda>c. (of_char c :: nat) < 128) data then Inl Unmodelled
     else if data = [] then Inr None
     else (case json_loads data of
             Inr req \<Rightarrow> Inr (Some req)
           | Inl DecodeError \<Rightarrow> Inr None
           | Inl e \<Rightarrow> Inl e))"


subsection \<open>The two ends of a connection\<close>

text \<open>
  \<^verbatim>\<open>handle_request\<close> on the bytes a client sent: read, decode, then the handler
  of \<open>Node\<close> on the request (\<open>None\<close>: nothing decoded, no reply).
\<close>

definition handle_conn :: "digest \<Rightarrow> node \<Rightarrow> string \<Rightarrow> decode_err + (handled \<times> node) option" where
  "handle_conn sha1 n sent =
    (case recv_request sent of
      Inl e \<Rightarrow> Inl e
    | Inr data \<Rightarrow> Inr (handle_request sha1 n data))"

text \<open>
  The reply side of \<^verbatim>\<open>send_request\<close>: \<^verbatim>\<open>response = client.recv(1024).decode()\<close>,
  \<^verbatim>\<open>return json.loads(response)\<close>.  \<open>Inr v\<close> is the dict returned;
  \<open>Inl DecodeError\<close> is the \<^verbatim>\<open>JSONDecodeError\<close> the \<^verbatim>\<open>except\<close> turns
  into \<^verbatim>\<open>{"status": "error", "message": str(e)}\<close> (the decoder's message text
  is not modelled).
\<close>

definition recv_response :: "string \<Rightarrow> decode_err + json" where
  "recv_response sent =
    (let data = take 1024 sent in
     if \<not> list_all (\<lambda>c. (of_char c :: nat) < 128) data then Inl Unmodelled
     else json_loads data)"

subsection \<open>Well-formed values\<close>

text \<open>
  The values \<^verbatim>\<open>json.loads\<close> can return: a dict has each key once.  \<open>jfuel\<close>
  bounds the nesting the decoder walks through, \<open>closer\<close> is what may follow a
  value inside a container, \<open>is_container\<close> a list or dict.
\<close>

fun wf_json :: "json \<Rightarrow> bool" where
  "wf_json (JList xs) = (\<forall>x \<in> set xs. wf_json x)"
| "wf_json (JObj kvs) = (distinct (map fst kvs) \<and> (\<forall>kv \<in> set kvs. wf_json (snd kv)))"
| "wf_json _ = True"

fun jfuel :: "json \<Rightarrow> nat" where
  "jfuel (JList xs) = Suc (sum_list (map (\<lambda>x. Suc (jfuel x)) xs))"
| "jfuel (JObj kvs) = Suc (sum_list (map (\<lambda>kv. Suc (jfuel (snd kv))) kvs))"
| "jfuel _ = 0"

definition closer :: "string \<Rightarrow> bool" where
  "closer r \<longleftrightarrow> r = [] \<or> hd r = CHR '','' \<or> hd r = CHR '']'' \<or> hd r = CHR ''}''"

definition is_container :: "json \<Rightarrow> bool" where
  "is_container v \<longleftrightarrow> (case v of JList _ \<Rightarrow> True | JObj _ \<Rightarrow> True | _ \<Rightarrow> False)"

text \<open>A decoder result that did not run out of fuel and consumed input.\<close>

definition fuel_ok :: "decode_err + ('a \<times> string) \<Rightarrow> string \<Rightarrow> bool" where
  "fuel_ok res s = (case res of Inl e \<Rightarrow> e \<noteq> OutOfFuel | Inr (v, r) \<Rightarrow> length r < length s)"

subsection \<open>Decoding what was encoded\<close>

lemma hex_val_hex_digit: "d < 16 \<Longrightarrow> hex_val (hex_digit d) = Some d"
  by (auto simp: hex_val_def hex_digit_def Let_def)

lemma hex4_val_byte:
  assumes "n < 256"
  shows "hex4_val (hex_digit (n div 4096 mod 16)) (hex_digit (n div 256 mod 16))
                  (hex_digit (n div 16 mod 16)) (hex_digit (n mod 16)) = Some n"
proof -
  have "n div 16 < 16" using assms by simp
  then have "16 * (n div 16 mod 16) + n mod 16 = n" by simp
  with assms show ?thesis by (simp add: hex4_val_def hex_val_hex_digit)
qed

lemma scan_str_esc_char: "scan_str acc (esc_char c @ r) = scan_str (c # acc) r"
proof -
  have lt: "(of_char c :: nat) < 256" by (rule nat_of_char_less_256)
  show ?thesis
    using hex4_val_byte[OF lt]
    by (auto simp: esc_char_def simple_escape_def hex4_def)
qed

lemma scan_str_dump:
  "scan_str acc (concat (map esc_char s) @ CHR 0x22 # r) = Inr (rev acc @ s, r)"
  by (induction s arbitrary: acc) (simp_all add: scan_str_esc_char)


lemma closer_not_digit:
  "closer r \<Longrightarrow> takeWhile dec_digit r = [] \<and> dropWhile dec_digit r = r \<and> \<not> float_tail r"
  by (cases r) (auto simp: closer_def dec_digit_def float_tail_def split: list.split)

lemma of_char_digit_char: "d < 10 \<Longrightarrow> (of_char (digit_char d) :: nat) = 48 + d"
  by (simp add: digit_char_def)

lemma digit_char_eq: "d < 10 \<Longrightarrow> digit_char d = c \<Longrightarrow> (of_char c :: nat) = 48 + d"
  using of_char_digit_char by blast

lemma digit_char_dec:
  "d < 10 \<Longrightarrow> dec_digit (digit_char d) \<and> of_char (digit_char d) - 48 = d \<and>
     digit_char d \<noteq> CHR ''-'' \<and> (digit_char d = CHR ''0'' \<longleftrightarrow> d = 0)"
  using digit_char_eq[of d "CHR ''-''"] digit_char_eq[of d "CHR ''0''"]
  by (auto simp: of_char_digit_char dec_digit_def)

lemma digits_take_drop:
  assumes "\<forall>d \<in> set ds. d < 10" "closer r"
  shows "takeWhile dec_digit (map digit_char ds @ r) = map digit_char ds \<and>
         dropWhile dec_digit (map digit_char ds @ r) = r"
  using assms by (induction ds) (simp_all add: digit_char_dec closer_not_digit)

lemma digits_value_map:
  "\<forall>d \<in> set ds. d < 10 \<Longrightarrow>
     foldl (\<lambda>a c. 10 * a + (of_char c - 48)) acc (map digit_char ds) = foldl (\<lambda>a d. 10 * a + d) acc ds"
  by (induction ds arbitrary: acc) (simp_all add: digit_char_dec)

lemma nat_digits_hd: "0 < n \<Longrightarrow> hd (nat_digits n) \<noteq> 0"
proof (induction n rule: nat_digits.induct)
  case (1 n)
  show ?case
  proof (cases "n < 10")
    case True
    with 1 show ?thesis by (subst nat_digits.simps) simp
  next
    case False
    then have "0 < n div 10" by simp
    with 1 False show ?thesis by (subst nat_digits.simps) simp
  qed
qed

lemma scan_uint_show_nat:
  assumes r: "closer r"
  shows "scan_uint (show_nat n @ r) = Some (n, r)"
proof -
  obtain d ds where nd: "nat_digits n = d # ds"
    using nat_digits_ne by (cases "nat_digits n") auto
  have lt: "d < 10" "\<forall>x \<in> set ds. x < 10"
    using nat_digits_lt[of _ n] nd by auto
  have val: "foldl (\<lambda>a d. 10 * a + d) 0 (d # ds) = n"
    using nat_digits_value[of n] nd by simp
  show ?thesis
  proof (cases "n = 0")
    case True
    then have "nat_digits n = [0]" by (subst nat_digits.simps) simp
    with True show ?thesis by (simp add: show_nat_def scan_uint_def)
  next
    case False
    then have "d \<noteq> 0" using nat_digits_hd[of n] nd by simp
    with lt val r show ?thesis
      by (simp add: show_nat_def nd scan_uint_def digit_char_dec digits_take_drop digits_value_def
                    digits_value_map)
  qed
qed

lemma scan_number_show_int:
  assumes r: "closer r"
  shows "scan_number (show_int i @ r) = Inr (JInt i, r)"
proof (cases "i < 0")
  case True
  with r show ?thesis
    by (simp add: scan_number_def show_int_def scan_uint_show_nat closer_not_digit)
next
  case False
  obtain c cs where sn: "show_nat (nat i) = c # cs" and "dec_digit c"
    using show_nat_ends[of "nat i"]
    by (cases "show_nat (nat i)") (auto simp: is_digit_def dec_digit_def)
  then have "c \<noteq> CHR ''-''" by (auto simp: dec_digit_def)
  with False r sn scan_uint_show_nat[OF r, of "nat i"] show ?thesis
    by (simp add: scan_number_def show_int_def closer_not_digit)
qed


lemma update_fresh: "k \<notin> fst ` set al \<Longrightarrow> AList.update k v al = al @ [(k, v)]"
  by (induction al) auto

lemma skip_ws_nonws: "\<not> json_ws c \<Longrightarrow> skip_ws (c # r) = c # r"
  by (simp add: skip_ws_def)

lemma json_ws_chars [simp]:
  "\<not> json_ws CHR '','' " "\<not> json_ws CHR '']''" "\<not> json_ws CHR ''}''" "\<not> json_ws CHR '':''"
  "\<not> json_ws CHR 0x22" "\<not> json_ws CHR ''[''" "\<not> json_ws CHR ''{''" "json_ws CHR '' ''"
  by (simp_all add: json_ws_def)

lemma dumps_head:
  "\<exists>c cs. json_dumps v = c # cs \<and> \<not> json_ws c \<and> c \<noteq> CHR '']''"
proof (cases v)
  case (JInt i)
  obtain c cs where "show_int i = c # cs" using show_int_ends[of i] by (cases "show_int i") auto
  moreover have "c = CHR ''-'' \<or> dec_digit c"
    using calculation show_nat_ends[of "nat i"] show_nat_ends[of "nat (- i)"]
    by (cases "i < 0") (auto simp: show_int_def is_digit_def dec_digit_def)
  ultimately show ?thesis using JInt by (auto simp: json_ws_def dec_digit_def)
qed (auto simp: dump_str_def json_ws_def)


lemma dec_digit_other:
  "dec_digit c \<Longrightarrow> c \<noteq> CHR ''n'' \<and> c \<noteq> CHR ''t'' \<and> c \<noteq> CHR ''f'' \<and> c \<noteq> CHR ''N'' \<and>
     c \<noteq> CHR ''I'' \<and> c \<noteq> CHR ''-'' \<and> c \<noteq> CHR 0x22 \<and> c \<noteq> CHR ''{'' \<and> c \<noteq> CHR ''[''"
  by (auto simp: dec_digit_def)

lemma show_int_shape:
  "\<exists>c cs. show_int i = c # cs \<and> (dec_digit c \<or> (c = CHR ''-'' \<and> cs \<noteq> [] \<and> dec_digit (hd cs)))"
proof (cases "i < 0")
  case True
  then show ?thesis
    using show_nat_ends[of "nat (- i)"] by (auto simp: show_int_def is_digit_def dec_digit_def)
next
  case False
  then show ?thesis
    using show_nat_ends[of "nat i"]
    by (cases "show_nat (nat i)") (auto simp: show_int_def is_digit_def dec_digit_def)
qed

lemma join_with_Cons:
  "join_with sep (x # xs) = x @ (if xs = [] then [] else sep @ join_with sep xs)"
  by (cases xs) simp_all

lemma scan_elems_dump:
  assumes IH: "\<And>x k r. x \<in> set xs \<Longrightarrow> closer r \<Longrightarrow> jfuel x < k \<Longrightarrow>
                 scan_value k (json_dumps x @ r) = Inr (x, r)"
    and ne: "xs \<noteq> []" and r: "closer r" and k: "sum_list (map (\<lambda>x. Suc (jfuel x)) xs) < k"
  shows "scan_elems k acc (join_with '', '' (map json_dumps xs) @ CHR '']'' # r) = Inr (JList (acc @ xs), r)"
  using IH ne k
proof (induction xs arbitrary: acc k)
  case Nil
  then show ?case by simp
next
  case (Cons x xs)
  from Cons.prems(3) obtain k' where k': "k = Suc k'" "jfuel x < k'"
    "sum_list (map (\<lambda>x. Suc (jfuel x)) xs) < k'"
    by (cases k) auto
  show ?case
  proof (cases "xs = []")
    case True
    have "scan_value k' (json_dumps x @ CHR '']'' # r) = Inr (x, CHR '']'' # r)"
      by (rule Cons.prems(1)) (simp_all add: closer_def k')
    with True k' show ?thesis by (simp add: skip_ws_nonws)
  next
    case False
    have hd: "\<exists>c cs. join_with '', '' (map json_dumps xs) = c # cs \<and> \<not> json_ws c"
      using dumps_head[of "hd xs"] False by (cases xs) (auto simp: join_with_Cons)
    have "scan_value k' (json_dumps x @ '', '' @ join_with '', '' (map json_dumps xs) @ CHR '']'' # r) =
        Inr (x, '', '' @ join_with '', '' (map json_dumps xs) @ CHR '']'' # r)"
      using Cons.prems(1)[of x "'', '' @ join_with '', '' (map json_dumps xs) @ CHR '']'' # r" k'] k'
      by (simp add: closer_def)
    moreover have "scan_elems k' (acc @ [x]) (join_with '', '' (map json_dumps xs) @ CHR '']'' # r) =
        Inr (JList (acc @ [x] @ xs), r)"
      using Cons.IH[where acc = "acc @ [x]" and k = k'] Cons.prems(1) False k' by simp
    ultimately show ?thesis
      using False hd k' by (auto simp: skip_ws_nonws skip_ws_def join_with_Cons)
  qed
qed


lemma scan_members_dump:
  assumes IH: "\<And>kv k r. kv \<in> set kvs \<Longrightarrow> closer r \<Longrightarrow> jfuel (snd kv) < k \<Longrightarrow>
                 scan_value k (json_dumps (snd kv) @ r) = Inr (snd kv, r)"
    and ne: "kvs \<noteq> []" and dist: "distinct (map fst (acc @ kvs))" and r: "closer r"
    and k: "sum_list (map (\<lambda>kv. Suc (jfuel (snd kv))) kvs) < k"
  shows "scan_members k acc
           (tl (join_with '', '' (map (\<lambda>(k, v). dump_str k @ '': '' @ json_dumps v) kvs)) @ CHR ''}'' # r) =
         Inr (JObj (acc @ kvs), r)"
  using IH ne dist k
proof (induction kvs arbitrary: acc k)
  case Nil
  then show ?case by simp
next
  case (Cons kv kvs)
  obtain key v where kv: "kv = (key, v)" by (cases kv)
  from Cons.prems(4) obtain k' where k': "k = Suc k'" "jfuel v < k'"
    "sum_list (map (\<lambda>kv. Suc (jfuel (snd kv))) kvs) < k'"
    by (cases k) (auto simp: kv)
  have fresh: "key \<notin> fst ` set acc" using Cons.prems(3) kv by auto
  define T where "T = (if kvs = [] then CHR ''}'' # r
                       else '', '' @ join_with '', '' (map (\<lambda>(k, v). dump_str k @ '': '' @ json_dumps v) kvs) @
                            CHR ''}'' # r)"
  have wire: "tl (join_with '', '' (map (\<lambda>(k, v). dump_str k @ '': '' @ json_dumps v) (kv # kvs))) @
                CHR ''}'' # r =
              concat (map esc_char key) @ CHR 0x22 # CHR '':'' # CHR '' '' # json_dumps v @ T"
    by (simp add: kv T_def join_with_Cons dump_str_def)
  have cl: "closer T" by (simp add: T_def closer_def)
  have val: "scan_value k' (json_dumps v @ T) = Inr (v, T)"
    using Cons.prems(1)[of kv T k'] kv cl k' by simp
  obtain c cs where dv: "json_dumps v = c # cs" "\<not> json_ws c" using dumps_head[of v] by blast
  have step: "scan_members k acc (concat (map esc_char key) @ CHR 0x22 # CHR '':'' # CHR '' '' # json_dumps v @ T) =
      (case skip_ws T of
         d # r4 \<Rightarrow>
           if d = CHR ''}'' then Inr (JObj (AList.update key v acc), r4)
           else if d = CHR '','' then
             (case skip_ws r4 of
               q # r5 \<Rightarrow> if q = CHR 0x22 then scan_members k' (AList.update key v acc) r5 else Inl DecodeError
             | [] \<Rightarrow> Inl DecodeError)
           else Inl DecodeError
       | [] \<Rightarrow> Inl DecodeError)"
    using val dv k' by (simp add: scan_str_dump skip_ws_nonws skip_ws_def)
  show ?case
  proof (cases "kvs = []")
    case True
    then show ?thesis
      using wire step fresh kv by (simp add: T_def update_fresh skip_ws_nonws)
  next
    case False
    have rest: "scan_members k' (acc @ [(key, v)])
        (tl (join_with '', '' (map (\<lambda>(k, v). dump_str k @ '': '' @ json_dumps v) kvs)) @ CHR ''}'' # r) =
        Inr (JObj (acc @ [(key, v)] @ kvs), r)"
      using Cons.IH[where acc = "acc @ [(key, v)]" and k = k'] Cons.prems(1,3) False k' kv by simp
    obtain m ms where jm: "join_with '', '' (map (\<lambda>(k, v). dump_str k @ '': '' @ json_dumps v) kvs) = m # ms"
      "m = CHR 0x22"
      using False by (cases kvs) (auto simp: join_with_Cons dump_str_def)
    show ?thesis
      using wire step fresh kv False rest jm by (simp add: T_def update_fresh skip_ws_nonws skip_ws_def)
  qed
qed


lemma scan_value_dump:
  "wf_json v \<Longrightarrow> closer r \<Longrightarrow> jfuel v < k \<Longrightarrow> scan_value k (json_dumps v @ r) = Inr (v, r)"
proof (induction v arbitrary: k r)
  case JNull
  then obtain k' where "k = Suc k'" by (cases k) auto
  then show ?case by simp
next
  case (JBool b)
  then obtain k' where "k = Suc k'" by (cases k) auto
  then show ?case by simp
next
  case (JInt i)
  then obtain k' where k: "k = Suc k'" by (cases k) auto
  obtain c cs where sh: "show_int i = c # cs" and
    cc: "dec_digit c \<or> (c = CHR ''-'' \<and> cs \<noteq> [] \<and> dec_digit (hd cs))"
    using show_int_shape[of i] by blast
  have inf: "take 9 (c # cs @ r) \<noteq> ''-Infinity''"
    using cc dec_digit_other[of "hd cs"] by (cases cs) (auto simp: dec_digit_def)
  have cs: "c \<noteq> CHR 0x22 \<and> c \<noteq> CHR ''{'' \<and> c \<noteq> CHR ''['' \<and> c \<noteq> CHR ''n'' \<and> c \<noteq> CHR ''t'' \<and>
    c \<noteq> CHR ''f'' \<and> c \<noteq> CHR ''N'' \<and> c \<noteq> CHR ''I''"
    using cc dec_digit_other[of c] by (cases "c = CHR ''-''") simp_all
  have "scan_value (Suc k') (c # cs @ r) = scan_number (c # cs @ r)"
    using cs inf by (cases "c = CHR ''-''") simp_all
  with k sh scan_number_show_int[OF JInt.prems(2), of i] show ?case
    by simp
next
  case (JStr s)
  then obtain k' where "k = Suc k'" by (cases k) auto
  then show ?case by (simp add: dump_str_def scan_str_dump)
next
  case (JList xs)
  then obtain k' where k: "k = Suc k'" "sum_list (map (\<lambda>x. Suc (jfuel x)) xs) < k'" by (cases k) auto
  show ?case
  proof (cases "xs = []")
    case True
    with k show ?thesis by (simp add: skip_ws_nonws)
  next
    case False
    have el: "scan_elems k' [] (join_with '', '' (map json_dumps xs) @ CHR '']'' # JList_r) = Inr (JList xs, JList_r)"
      if "closer JList_r" for JList_r
      using scan_elems_dump[where xs = xs and r = JList_r and k = k' and acc = "[]"] JList.IH JList.prems(1) False k(2) that by auto
    obtain c cs where "join_with '', '' (map json_dumps xs) = c # cs" "\<not> json_ws c" "c \<noteq> CHR '']''"
      using dumps_head[of "hd xs"] False by (cases xs) (auto simp: join_with_Cons)
    with el[OF JList.prems(2)] k show ?thesis by (simp add: skip_ws_nonws)
  qed
next
  case (JObj kvs)
  then obtain k' where k: "k = Suc k'" "sum_list (map (\<lambda>kv. Suc (jfuel (snd kv))) kvs) < k'"
    by (cases k) auto
  show ?case
  proof (cases "kvs = []")
    case True
    with k show ?thesis by (simp add: skip_ws_nonws)
  next
    case False
    have mem: "scan_members k' []
        (tl (join_with '', '' (map (\<lambda>(k, v). dump_str k @ '': '' @ json_dumps v) kvs)) @ CHR ''}'' # r) =
        Inr (JObj kvs, r)"
      using scan_members_dump[where kvs = kvs and r = r and k = k' and acc = "[]"] JObj.IH JObj.prems(1,2) False k(2)
      by (auto simp: snds.intros)
    obtain m ms where "join_with '', '' (map (\<lambda>(k, v). dump_str k @ '': '' @ json_dumps v) kvs) = m # ms"
      "m = CHR 0x22"
      using False by (cases kvs) (auto simp: join_with_Cons dump_str_def)
    with mem k show ?thesis by (simp add: skip_ws_nonws)
  qed
qed


lemma length_join_with:
  "length (join_with sep xs) = sum_list (map length xs) + length sep * (length xs - 1)"
  by (induction sep xs rule: join_with.induct) simp_all

lemma jfuel_le_length: "jfuel v \<le> length (json_dumps v)"
proof (induction v)
  case (JList xs)
  have "sum_list (map (\<lambda>x. Suc (jfuel x)) xs) \<le> sum_list (map (\<lambda>x. Suc (length (json_dumps x))) xs)"
    using JList.IH by (intro sum_list_mono) simp
  also have "\<dots> = length xs + sum_list (map (\<lambda>x. length (json_dumps x)) xs)"
    by (induction xs) simp_all
  finally show ?case
    by (simp add: length_join_with comp_def)
next
  case (JObj kvs)
  have "sum_list (map (\<lambda>kv. Suc (jfuel (snd kv))) kvs) \<le>
        sum_list (map (\<lambda>kv. Suc (length (json_dumps (snd kv)))) kvs)"
    using JObj.IH by (intro sum_list_mono) (simp add: snds.intros)
  also have "\<dots> \<le> sum_list (map (length \<circ> (\<lambda>(k, v). dump_str k @ '': '' @ json_dumps v)) kvs)"
    by (intro sum_list_mono) (auto simp: dump_str_def)
  finally show ?case
    by (simp add: length_join_with)
qed simp_all

lemma json_loads_dumps_core:
  "wf_json v \<Longrightarrow> json_loads (json_dumps v) = Inr v"
proof -
  assume wf: "wf_json v"
  obtain c cs where d: "json_dumps v = c # cs" "\<not> json_ws c" using dumps_head[of v] by blast
  have sk: "skip_ws (json_dumps v) = json_dumps v"
    unfolding d(1) using d(2) by (rule skip_ws_nonws)
  have "scan_value (Suc (2 * length (json_dumps v))) (json_dumps v @ []) = Inr (v, [])"
    using jfuel_le_length[of v] by (intro scan_value_dump[OF wf]) (simp_all add: closer_def)
  then show ?thesis
    by (simp add: json_loads_def sk del: scan_value.simps) (simp add: skip_ws_def)
qed


subsection \<open>Truncated text\<close>


lemma scan_str_end: "scan_str acc [] = Inl DecodeError"
  by simp

lemma scan_str_esc_prefix:
  assumes j: "j \<le> length (esc_char c)"
  shows "scan_str acc (take j (esc_char c)) = Inl DecodeError"
proof -
  have lt: "(of_char c :: nat) < 256" by (rule nat_of_char_less_256)
  consider (bs) "c = CHR 0x5C" | (q) "c = CHR 0x22" | (b) "c = CHR 0x08" | (f) "c = CHR 0x0C"
    | (n) "c = CHR 0x0A" | (r) "c = CHR 0x0D" | (t) "c = CHR 0x09"
    | (plain) "esc_char c = [c]"
    | (u) "esc_char c = CHR 0x5C # CHR ''u'' # hex4 (of_char c)"
  proof -
    assume cases: "c = CHR 0x5C \<Longrightarrow> thesis" "c = CHR 0x22 \<Longrightarrow> thesis" "c = CHR 0x08 \<Longrightarrow> thesis"
      "c = CHR 0x0C \<Longrightarrow> thesis" "c = CHR 0x0A \<Longrightarrow> thesis" "c = CHR 0x0D \<Longrightarrow> thesis"
      "c = CHR 0x09 \<Longrightarrow> thesis" "esc_char c = [c] \<Longrightarrow> thesis"
      "esc_char c = CHR 0x5C # CHR ''u'' # hex4 (of_char c) \<Longrightarrow> thesis"
    show thesis
    proof (cases "c \<in> {CHR 0x5C, CHR 0x22, CHR 0x08, CHR 0x0C, CHR 0x0A, CHR 0x0D, CHR 0x09}")
      case True
      then show thesis using cases(1-7) by blast
    next
      case False
      then show thesis
        using cases(8,9) unfolding esc_char_def by (cases "32 \<le> (of_char c :: nat) \<and> (of_char c :: nat) \<le> 126") auto
    qed
  qed
  then have "\<forall>i \<le> length (esc_char c). scan_str acc (take i (esc_char c)) = Inl DecodeError"
  proof cases
    case plain
    then have "c \<noteq> CHR 0x22 \<and> c \<noteq> CHR 0x5C" by (auto simp: esc_char_def)
    with plain show ?thesis by (simp add: le_Suc_eq)
  next
    case u
    then show ?thesis
      using hex4_val_byte[OF lt] by (simp add: u hex4_def le_Suc_eq)
  qed (simp_all add: esc_char_def simple_escape_def le_Suc_eq)
  with j show ?thesis by blast
qed


lemma scan_str_prefix:
  "j \<le> length (concat (map esc_char s)) \<Longrightarrow> scan_str acc (take j (concat (map esc_char s))) = Inl DecodeError"
proof (induction s arbitrary: acc j)
  case Nil
  then show ?case by simp
next
  case (Cons c s)
  show ?case
  proof (cases "j \<le> length (esc_char c)")
    case True
    then show ?thesis by (simp add: scan_str_esc_prefix)
  next
    case False
    then have "take j (concat (map esc_char (c # s))) =
        esc_char c @ take (j - length (esc_char c)) (concat (map esc_char s))"
      by simp
    with False Cons show ?thesis by (simp add: scan_str_esc_char)
  qed
qed


lemma show_nat_all_digits: "\<forall>c \<in> set (show_nat n). dec_digit c"
  using nat_digits_lt[of _ n] by (auto simp: show_nat_def digit_char_dec)

lemma show_nat_lead:
  "\<exists>d ds. show_nat n = d # ds \<and> dec_digit d \<and> (d = CHR ''0'' \<longrightarrow> n = 0 \<and> ds = [])"
proof -
  obtain x xs where nd: "nat_digits n = x # xs" using nat_digits_ne by (cases "nat_digits n") auto
  have lt: "x < 10" using nat_digits_lt[of x n] nd by simp
  have "digit_char x = CHR ''0'' \<Longrightarrow> n = 0 \<and> xs = []"
  proof -
    assume "digit_char x = CHR ''0''"
    with lt have "x = 0" by (simp add: digit_char_dec)
    with nat_digits_hd[of n] nd have "n = 0" by (cases "n = 0") auto
    moreover from this nd have "xs = []" by (subst (asm) nat_digits.simps) simp
    ultimately show ?thesis by simp
  qed
  with nd lt show ?thesis by (auto simp: show_nat_def digit_char_dec)
qed

lemma scan_digits_prefix:
  assumes "\<forall>c \<in> set (d # t). dec_digit c" "d = CHR ''0'' \<longrightarrow> t = []"
  shows "\<exists>n. scan_uint (d # t) = Some (n, [])"
  using assms by (auto simp: scan_uint_def dropWhile_eq_Nil_conv)

lemma scan_value_int_prefix:
  assumes j: "j < length (show_int i)" and k: "0 < k"
  shows "scan_value k (take j (show_int i)) = Inl DecodeError \<or>
         (\<exists>w. scan_value k (take j (show_int i)) = Inr (w, []))"
proof (cases j)
  case 0
  with k show ?thesis by (cases k) auto
next
  case (Suc j')
  obtain k' where k': "k = Suc k'" using k by (cases k) auto
  obtain c cs where sh: "show_int i = c # cs" and
    cc: "dec_digit c \<or> (c = CHR ''-'' \<and> cs \<noteq> [] \<and> dec_digit (hd cs))"
    using show_int_shape[of i] by blast
  let ?t = "take j' cs"
  have tk: "take j (show_int i) = c # ?t" using sh Suc by simp
  have inf: "take 9 (c # ?t) \<noteq> ''-Infinity''"
    using cc dec_digit_other[of "hd cs"] by (cases cs; cases j') (auto simp: dec_digit_def)
  have cs: "c \<noteq> CHR 0x22 \<and> c \<noteq> CHR ''{'' \<and> c \<noteq> CHR ''['' \<and> c \<noteq> CHR ''n'' \<and> c \<noteq> CHR ''t'' \<and>
    c \<noteq> CHR ''f'' \<and> c \<noteq> CHR ''N'' \<and> c \<noteq> CHR ''I''"
    using cc dec_digit_other[of c] by (cases "c = CHR ''-''") simp_all
  have sv: "scan_value k (c # ?t) = scan_number (c # ?t)"
    using cs inf k' by (cases "c = CHR ''-''") simp_all
  have no_tail: "\<not> float_tail []" by (simp add: float_tail_def)
  show ?thesis
  proof (cases "i < 0")
    case True
    obtain d ds where sn: "show_nat (nat (- i)) = d # ds" "dec_digit d" "d = CHR ''0'' \<longrightarrow> nat (- i) = 0 \<and> ds = []"
      using show_nat_lead[of "nat (- i)"] by blast
    have all: "\<forall>x \<in> set (d # ds). dec_digit x" using show_nat_all_digits[of "nat (- i)"] sn by simp
    have ccs: "c = CHR ''-''" "cs = d # ds" using sh True sn by (simp_all add: show_int_def)
    show ?thesis
    proof (cases j')
      case 0
      with ccs sv tk show ?thesis by (simp add: scan_number_def scan_uint_def)
    next
      case (Suc j'')
      have "\<forall>x \<in> set (d # take j'' ds). dec_digit x" using all by (auto dest: in_set_takeD)
      moreover have "d \<noteq> CHR ''0''" using sn True by auto
      ultimately obtain n where "scan_uint (d # take j'' ds) = Some (n, [])"
        using scan_digits_prefix by blast
      with ccs sv tk Suc no_tail show ?thesis by (simp add: scan_number_def)
    qed
  next
    case False
    obtain d ds where sn: "show_nat (nat i) = d # ds" "dec_digit d" "d = CHR ''0'' \<longrightarrow> nat i = 0 \<and> ds = []"
      using show_nat_lead[of "nat i"] by blast
    have all: "\<forall>x \<in> set (d # ds). dec_digit x" using show_nat_all_digits[of "nat i"] sn by simp
    have ccs: "c = d" "cs = ds" using sh False sn by (simp_all add: show_int_def)
    have "\<forall>x \<in> set (d # take j' ds). dec_digit x" using all by (auto dest: in_set_takeD)
    moreover have "d = CHR ''0'' \<longrightarrow> take j' ds = []" using sn by simp
    ultimately obtain n where "scan_uint (d # take j' ds) = Some (n, [])"
      using scan_digits_prefix by blast
    moreover have "d \<noteq> CHR ''-''" using sn(2) by (auto simp: dec_digit_def)
    ultimately show ?thesis using ccs sv tk no_tail by (simp add: scan_number_def)
  qed
qed


lemma skip_ws_Nil [simp]: "skip_ws [] = []"
  by (simp add: skip_ws_def)

lemma skip_ws_take_lead:
  assumes "J \<noteq> []" "\<not> json_ws (hd J)"
  shows "skip_ws (take n J) = take n J"
  using assms by (cases J; cases n) (simp_all add: skip_ws_nonws)

lemma scan_elems_prefix:
  assumes P: "\<And>x j k. x \<in> set xs \<Longrightarrow> j < length (json_dumps x) \<Longrightarrow> 2 * j < k \<Longrightarrow>
                scan_value k (take j (json_dumps x)) = Inl DecodeError \<or>
                (\<exists>w. scan_value k (take j (json_dumps x)) = Inr (w, []))"
    and R: "\<And>x k r. x \<in> set xs \<Longrightarrow> closer r \<Longrightarrow> jfuel x < k \<Longrightarrow>
                scan_value k (json_dumps x @ r) = Inr (x, r)"
    and ne: "xs \<noteq> []"
    and j: "j < length (join_with '', '' (map json_dumps xs) @ '']'')" and k: "2 * j + 1 < k"
  shows "scan_elems k acc (take j (join_with '', '' (map json_dumps xs) @ '']'')) = Inl DecodeError"
  using P R ne j k
proof (induction xs arbitrary: acc j k)
  case Nil
  then show ?case by simp
next
  case (Cons x xs)
  obtain k' where k': "k = Suc k'" "2 * j < k'" using Cons.prems(5) by (cases k) auto
  define D where "D = json_dumps x"
  define J where "J = join_with '', '' (map json_dumps xs) @ '']''"
  define T where "T = (if xs = [] then '']'' else '', '' @ J)"
  have jtxt: "join_with '', '' (map json_dumps (x # xs)) @ '']'' = D @ T"
    by (simp add: D_def T_def J_def join_with_Cons)
  obtain dc ds where D: "D = dc # ds" "\<not> json_ws dc" using dumps_head[of x] D_def by blast
  have jf: "jfuel x \<le> length D" using jfuel_le_length[of x] D_def by simp
  consider (inside) "j < length D" | (whole) "j = length D" | (after) "length D < j" by linarith
  then show ?case
  proof cases
    case inside
    have "take j (D @ T) = take j (json_dumps x)" using inside D_def by simp
    with Cons.prems(1)[of x j k'] inside k' D_def jtxt show ?thesis
      by (auto simp: skip_ws_def)
  next
    case whole
    have "scan_value k' (json_dumps x @ []) = Inr (x, [])"
      using Cons.prems(2)[of x "[]" k'] whole k' jf D by (simp add: closer_def D_def)
    with whole k' D_def jtxt show ?thesis by (simp add: skip_ws_def)
  next
    case after
    define m where "m = j - length D"
    have "j < length (D @ T)" using Cons.prems(4) unfolding jtxt .
    then have m: "0 < m" "m < length T" "take j (D @ T) = D @ take m T"
      using after by (simp_all add: m_def)
    have xs: "xs \<noteq> []" using m(1,2) by (cases "xs = []") (simp_all add: T_def)
    then have T: "T = CHR '','' # CHR '' '' # J" by (simp add: T_def)
    have cl: "closer (take m T)" using m(1) T by (cases m) (simp_all add: closer_def)
    have sv: "scan_value k' (json_dumps x @ take m T) = Inr (x, take m T)"
      using Cons.prems(2)[of x "take m T" k'] cl jf k' after by (simp add: D_def)
    obtain jc js where Jc: "J = jc # js" "\<not> json_ws jc"
      using dumps_head[of "hd xs"] xs by (cases xs) (auto simp: J_def join_with_Cons)
    have rest: "skip_ws (take (m - 1) (CHR '' '' # J)) = take (m - 2) J"
    proof (cases "m = 1")
      case True
      then show ?thesis by simp
    next
      case False
      with m(1) have "m - 1 = Suc (m - 2)" by arith
      then show ?thesis
        using Jc skip_ws_take_lead[of J "m - 2"] by (simp add: skip_ws_def)
    qed
    have ih: "scan_elems k' (acc @ [x]) (take (m - 2) J) = Inl DecodeError"
      using Cons.IH[where acc = "acc @ [x]" and j = "m - 2" and k = k'] Cons.prems(1,2) xs m k' after
      by (simp add: J_def T_def m_def)
    have "take m T = CHR '','' # take (m - 1) (CHR '' '' # J)" using T m(1) by (cases m) simp_all
    with sv rest ih k' m(3) jtxt show ?thesis by (simp add: D_def skip_ws_nonws)
  qed
qed


lemma take_past_three:
  assumes "length E + 3 \<le> j"
  shows "take j (E @ a # b # c # X) = E @ a # b # c # take (j - (length E + 3)) X"
proof -
  obtain i where "j = length E + 3 + i" using assms le_Suc_ex by blast
  then show ?thesis by (simp add: numeral_3_eq_3)
qed

lemma scan_members_prefix:
  assumes P: "\<And>kv j k. kv \<in> set kvs \<Longrightarrow> j < length (json_dumps (snd kv)) \<Longrightarrow> 2 * j < k \<Longrightarrow>
                scan_value k (take j (json_dumps (snd kv))) = Inl DecodeError \<or>
                (\<exists>w. scan_value k (take j (json_dumps (snd kv))) = Inr (w, []))"
    and R: "\<And>kv k r. kv \<in> set kvs \<Longrightarrow> closer r \<Longrightarrow> jfuel (snd kv) < k \<Longrightarrow>
                scan_value k (json_dumps (snd kv) @ r) = Inr (snd kv, r)"
    and ne: "kvs \<noteq> []"
    and j: "j < length (tl (join_with '', '' (map (\<lambda>(k, v). dump_str k @ '': '' @ json_dumps v) kvs)) @ ''}'')"
    and k: "2 * j + 1 < k"
  shows "scan_members k acc
           (take j (tl (join_with '', '' (map (\<lambda>(k, v). dump_str k @ '': '' @ json_dumps v) kvs)) @ ''}'')) =
         Inl DecodeError"
  using P R ne j k
proof (induction kvs arbitrary: acc j k)
  case Nil
  then show ?case by simp
next
  case (Cons kv kvs)
  obtain key v where kv: "kv = (key, v)" by (cases kv)
  obtain k' where k': "k = Suc k'" "2 * j < k'" using Cons.prems(5) by (cases k) auto
  define E where "E = concat (map esc_char key)"
  define D where "D = json_dumps v"
  define J where "J = tl (join_with '', '' (map (\<lambda>(k, v). dump_str k @ '': '' @ json_dumps v) kvs)) @ ''}''"
  define T where "T = (if kvs = [] then ''}'' else '', '' @ CHR 0x22 # J)"
  have jtxt: "tl (join_with '', '' (map (\<lambda>(k, v). dump_str k @ '': '' @ json_dumps v) (kv # kvs))) @ ''}'' =
      E @ CHR 0x22 # CHR '':'' # CHR '' '' # D @ T"
  proof (cases kvs)
    case (Cons kv' kvs')
    obtain key' v' where "kv' = (key', v')" by (cases kv')
    with Cons show ?thesis by (simp add: kv E_def D_def J_def T_def join_with_Cons dump_str_def)
  qed (simp add: kv E_def D_def T_def dump_str_def)
  have jlen: "j < length (E @ CHR 0x22 # CHR '':'' # CHR '' '' # D @ T)"
    using Cons.prems(4) unfolding jtxt .
  obtain dc ds where Dh: "D = dc # ds" "\<not> json_ws dc" using dumps_head[of v] D_def by blast
  have jf: "jfuel v \<le> length D" using jfuel_le_length[of v] D_def by simp
  have vin: "kv \<in> set (kv # kvs)" by simp
  have after_key: "scan_members k acc (E @ CHR 0x22 # r) =
      (case skip_ws r of
         c # r2 \<Rightarrow>
           if c = CHR '':'' then
             (case scan_value k' (skip_ws r2) of
               Inl e \<Rightarrow> Inl e
             | Inr (v, r3) \<Rightarrow>
                 (case skip_ws r3 of
                   d # r4 \<Rightarrow>
                     if d = CHR ''}'' then Inr (JObj (AList.update key v acc), r4)
                     else if d = CHR '','' then
                       (case skip_ws r4 of
                         q # r5 \<Rightarrow> if q = CHR 0x22 then scan_members k' (AList.update key v acc) r5
                                  else Inl DecodeError
                       | [] \<Rightarrow> Inl DecodeError)
                     else Inl DecodeError
                 | [] \<Rightarrow> Inl DecodeError))
           else Inl DecodeError
       | [] \<Rightarrow> Inl DecodeError)" for r
    using k' by (simp add: E_def scan_str_dump)
  consider (key) "j \<le> length E" | (colon) "length E < j" "j \<le> length E + 3"
    | (val) "length E + 3 < j" "j - (length E + 3) < length D"
    | (whole) "j - (length E + 3) = length D" "length E + 3 < j"
    | (tail) "length D < j - (length E + 3)" "length E + 3 < j"
    by linarith
  then have main: "scan_members k acc (take j (E @ CHR 0x22 # CHR '':'' # CHR '' '' # D @ T)) = Inl DecodeError"
  proof cases
    case key
    then have "take j (E @ CHR 0x22 # CHR '':'' # CHR '' '' # D @ T) = take j E" by simp
    moreover have "scan_str [] (take j E) = Inl DecodeError" using key by (simp add: E_def scan_str_prefix)
    ultimately show ?thesis using k' by simp
  next
    case colon
    then consider "j = Suc (length E)" | "j = Suc (Suc (length E))" | "j = Suc (Suc (Suc (length E)))"
      by linarith
    then show ?thesis
    proof cases
      case 1
      then show ?thesis using after_key[of "[]"] by simp
    next
      case 2
      then show ?thesis using after_key[of "[CHR '':'']"] k' by (cases k') (auto simp: skip_ws_nonws)
    next
      case 3
      then show ?thesis using after_key[of "[CHR '':'', CHR '' '']"] k'
        by (cases k') (auto simp: skip_ws_nonws skip_ws_def)
    qed
  next
    case val
    define i where "i = j - (length E + 3)"
    have tk: "take j (E @ CHR 0x22 # CHR '':'' # CHR '' '' # D @ T) = E @ CHR 0x22 # CHR '':'' # CHR '' '' # take i D"
      using val take_past_three[of E j] by (simp add: i_def)
    have "scan_value k' (take i D) = Inl DecodeError \<or> (\<exists>w. scan_value k' (take i D) = Inr (w, []))"
      using Cons.prems(1)[OF vin, of i k'] val k' by (simp add: kv D_def i_def)
    moreover have "skip_ws (take i D) = take i D" using Dh skip_ws_take_lead[of D i] by simp
    ultimately show ?thesis using jtxt tk after_key[of "CHR '':'' # CHR '' '' # take i D"]
      by (auto simp: skip_ws_nonws skip_ws_def)
  next
    case whole
    have tk: "take j (E @ CHR 0x22 # CHR '':'' # CHR '' '' # D @ T) = E @ CHR 0x22 # CHR '':'' # CHR '' '' # D"
      using whole take_past_three[of E j] by simp
    have "scan_value k' (D @ []) = Inr (v, [])"
      using Cons.prems(2)[OF vin, of "[]" k'] jf whole k' by (simp add: kv D_def closer_def)
    then show ?thesis using jtxt tk Dh after_key[of "CHR '':'' # CHR '' '' # D"]
      by (simp add: skip_ws_nonws skip_ws_def)
  next
    case tail
    define m where "m = j - (length E + 3) - length D"
    have m: "0 < m" "m < length T"
      "take j (E @ CHR 0x22 # CHR '':'' # CHR '' '' # D @ T) = E @ CHR 0x22 # CHR '':'' # CHR '' '' # D @ take m T"
      using tail jlen take_past_three[of E j] by (simp_all add: m_def)
    have kvs: "kvs \<noteq> []" using m(1,2) by (cases "kvs = []") (simp_all add: T_def)
    then have T: "T = CHR '','' # CHR '' '' # CHR 0x22 # J" by (simp add: T_def)
    have cl: "closer (take m T)" using m(1) T by (cases m) (simp_all add: closer_def)
    have sv: "scan_value k' (D @ take m T) = Inr (v, take m T)"
      using Cons.prems(2)[OF vin, of "take m T" k'] cl jf k' tail by (simp add: kv D_def)
    have ih: "scan_members k' (AList.update key v acc) (take (m - 3) J) = Inl DecodeError"
      using Cons.IH[where acc = "AList.update key v acc" and j = "m - 3" and k = k'] Cons.prems(1,2) kvs m k' tail
      by (simp add: J_def T_def m_def)
    have rest: "(case skip_ws (take (m - 1) (CHR '' '' # CHR 0x22 # J)) of
                  q # r5 \<Rightarrow> if q = CHR 0x22 then scan_members k' (AList.update key v acc) r5 else Inl DecodeError
                | [] \<Rightarrow> Inl DecodeError) = Inl DecodeError"
    proof (cases "m \<le> 2")
      case True
      with m(1) consider "m = 1" | "m = 2" by linarith
      then show ?thesis by cases (simp_all add: skip_ws_def)
    next
      case False
      then have "m - 1 = Suc (Suc (m - 3))" by arith
      then show ?thesis using ih by (simp add: skip_ws_nonws skip_ws_def)
    qed
    have "take m T = CHR '','' # take (m - 1) (CHR '' '' # CHR 0x22 # J)" using T m(1) by (cases m) simp_all
    then show ?thesis using jtxt m(3) sv rest Dh after_key[of "CHR '':'' # CHR '' '' # D @ take m T"]
      by (simp add: skip_ws_nonws skip_ws_def)
  qed
  then show ?case by (subst jtxt)
qed


lemma scan_list_prefix:
  assumes P: "\<And>x j k. x \<in> set xs \<Longrightarrow> j < length (json_dumps x) \<Longrightarrow> 2 * j < k \<Longrightarrow>
                scan_value k (take j (json_dumps x)) = Inl DecodeError \<or>
                (\<exists>w. scan_value k (take j (json_dumps x)) = Inr (w, []))"
    and R: "\<And>x k r. x \<in> set xs \<Longrightarrow> closer r \<Longrightarrow> jfuel x < k \<Longrightarrow>
                scan_value k (json_dumps x @ r) = Inr (x, r)"
    and j: "j < length (json_dumps (JList xs))" and k: "2 * j < k"
  shows "scan_value k (take j (json_dumps (JList xs))) = Inl DecodeError"
proof -
  obtain k' where k': "k = Suc k'" using k by (cases k) auto
  show ?thesis
  proof (cases j)
    case (Suc j')
    show ?thesis
    proof (cases "xs = [] \<or> j' = 0")
      case True
      with j Suc k' show ?thesis by auto
    next
      case False
      define J where "J = join_with '', '' (map json_dumps xs) @ '']''"
      obtain jc js where Jc: "J = jc # js" "\<not> json_ws jc" "jc \<noteq> CHR '']''"
        using dumps_head[of "hd xs"] False by (cases xs) (auto simp: J_def join_with_Cons)
      obtain t ts where tk: "take j' J = t # ts" "t = jc" using Jc False by (cases j') auto
      have "scan_elems k' [] (take j' J) = Inl DecodeError"
        unfolding J_def
        by (rule scan_elems_prefix[OF P R]) (use False j Suc k k' in simp_all)
      then have el: "scan_elems k' [] (t # ts) = Inl DecodeError" using tk(1) by simp
      have "json_dumps (JList xs) = CHR ''['' # J" by (simp add: J_def)
      then have "take j (json_dumps (JList xs)) = CHR ''['' # t # ts" by (simp only: Suc take_Suc_Cons tk(1))
      moreover have "skip_ws (t # ts) = t # ts" using Jc tk(2) by (simp add: skip_ws_nonws)
      ultimately show ?thesis using k' el Jc tk(2) by simp
    qed
  qed (simp add: k')
qed

lemma scan_obj_prefix:
  assumes P: "\<And>kv j k. kv \<in> set kvs \<Longrightarrow> j < length (json_dumps (snd kv)) \<Longrightarrow> 2 * j < k \<Longrightarrow>
                scan_value k (take j (json_dumps (snd kv))) = Inl DecodeError \<or>
                (\<exists>w. scan_value k (take j (json_dumps (snd kv))) = Inr (w, []))"
    and R: "\<And>kv k r. kv \<in> set kvs \<Longrightarrow> closer r \<Longrightarrow> jfuel (snd kv) < k \<Longrightarrow>
                scan_value k (json_dumps (snd kv) @ r) = Inr (snd kv, r)"
    and j: "j < length (json_dumps (JObj kvs))" and k: "2 * j < k"
  shows "scan_value k (take j (json_dumps (JObj kvs))) = Inl DecodeError"
proof -
  obtain k' where k': "k = Suc k'" using k by (cases k) auto
  show ?thesis
  proof (cases j)
    case (Suc j')
    show ?thesis
    proof (cases "kvs = [] \<or> j' = 0")
      case True
      with j Suc k' show ?thesis by auto
    next
      case False
      define M where "M = tl (join_with '', '' (map (\<lambda>(k, v). dump_str k @ '': '' @ json_dumps v) kvs)) @ ''}''"
      have J: "join_with '', '' (map (\<lambda>(k, v). dump_str k @ '': '' @ json_dumps v) kvs) @ ''}'' = CHR 0x22 # M"
        using False by (cases kvs) (auto simp: M_def join_with_Cons dump_str_def)
      have tk: "take j' (CHR 0x22 # M) = CHR 0x22 # take (j' - 1) M" using False by (cases j') auto
      have len: "j' - 1 < length M"
        using j Suc arg_cong[OF J, of length] False by (simp, linarith)
      have "scan_members k' [] (take (j' - 1) M) = Inl DecodeError"
        unfolding M_def
        by (rule scan_members_prefix[OF P R]) (use False len k Suc k' in \<open>simp_all add: M_def\<close>)
      then show ?thesis using Suc k' tk J by (simp add: skip_ws_nonws)
    qed
  qed (simp add: k')
qed

lemma scan_value_prefix:
  "wf_json v \<Longrightarrow> j < length (json_dumps v) \<Longrightarrow> 2 * j < k \<Longrightarrow>
   scan_value k (take j (json_dumps v)) = Inl DecodeError \<or>
   (\<exists>w. scan_value k (take j (json_dumps v)) = Inr (w, []))"
proof (induction v arbitrary: j k)
  case JNull
  then obtain k' where k: "k = Suc k'" by (cases k) auto
  from JNull.prems(2) have "j = 0 \<or> j = 1 \<or> j = 2 \<or> j = 3" by auto
  then show ?case using k by (elim disjE) (simp_all add: scan_number_def scan_uint_def dec_digit_def)
next
  case (JBool b)
  then obtain k' where k: "k = Suc k'" by (cases k) auto
  from JBool.prems(2) have "j = 0 \<or> j = 1 \<or> j = 2 \<or> j = 3 \<or> j = 4" by (cases b) auto
  then show ?case using k JBool.prems(2)
    by (cases b; elim disjE) (simp_all add: scan_number_def scan_uint_def dec_digit_def)
next
  case (JInt i)
  then show ?case using scan_value_int_prefix[of j i k] by simp
next
  case (JStr s)
  then obtain k' where k: "k = Suc k'" by (cases k) auto
  show ?case
  proof (cases j)
    case (Suc j')
    with JStr.prems(2) have "j' \<le> length (concat (map esc_char s))" by (simp add: dump_str_def)
    with Suc k show ?thesis by (simp add: dump_str_def scan_str_prefix)
  qed (simp add: k)
next
  case (JList xs)
  have "scan_value k (take j (json_dumps (JList xs))) = Inl DecodeError"
  proof (rule scan_list_prefix)
    show "scan_value k (take j (json_dumps x)) = Inl DecodeError \<or>
          (\<exists>w. scan_value k (take j (json_dumps x)) = Inr (w, []))"
      if "x \<in> set xs" "j < length (json_dumps x)" "2 * j < k" for x j k
      using JList.IH[OF that(1)] JList.prems(1) that by simp
    show "scan_value k (json_dumps x @ r) = Inr (x, r)"
      if "x \<in> set xs" "closer r" "jfuel x < k" for x k r
      using scan_value_dump[of x r k] JList.prems(1) that by simp
  qed (use JList.prems in simp_all)
  then show ?case ..
next
  case (JObj kvs)
  have "scan_value k (take j (json_dumps (JObj kvs))) = Inl DecodeError"
  proof (rule scan_obj_prefix)
    show "scan_value k (take j (json_dumps (snd kv))) = Inl DecodeError \<or>
          (\<exists>w. scan_value k (take j (json_dumps (snd kv))) = Inr (w, []))"
      if "kv \<in> set kvs" "j < length (json_dumps (snd kv))" "2 * j < k" for kv j k
      using JObj.IH[OF that(1), of "snd kv"] JObj.prems(1) that by (auto intro: snds.intros)
    show "scan_value k (json_dumps (snd kv) @ r) = Inr (snd kv, r)"
      if "kv \<in> set kvs" "closer r" "jfuel (snd kv) < k" for kv k r
      using scan_value_dump[of "snd kv" r k] JObj.prems(1) that by simp
  qed (use JObj.prems in simp_all)
  then show ?case ..
qed

lemma scan_container_prefix:
  assumes wf: "wf_json v" and c: "is_container v" and j: "j < length (json_dumps v)" and k: "2 * j < k"
  shows "scan_value k (take j (json_dumps v)) = Inl DecodeError"
proof (cases v)
  case (JList xs)
  with wf have "\<forall>x \<in> set xs. wf_json x" by simp
  then show ?thesis
    using JList j k scan_list_prefix[of xs j k] scan_value_prefix scan_value_dump by simp
next
  case (JObj kvs)
  with wf have "\<forall>kv \<in> set kvs. wf_json (snd kv)" by simp
  then show ?thesis
    using JObj j k scan_obj_prefix[of kvs j k] scan_value_prefix scan_value_dump by simp
qed (use c in \<open>simp_all add: is_container_def\<close>)

lemma json_loads_truncated:
  assumes "wf_json v" "is_container v" "j < length (json_dumps v)"
  shows "json_loads (take j (json_dumps v)) = Inl DecodeError"
proof -
  obtain c cs where d: "json_dumps v = c # cs" "\<not> json_ws c" using dumps_head[of v] by blast
  have "skip_ws (take j (json_dumps v)) = take j (json_dumps v)"
    using d skip_ws_take_lead[of "json_dumps v" j] by simp
  then show ?thesis
    using scan_container_prefix[OF assms, of "Suc (2 * length (take j (json_dumps v)))"] assms(3)
    by (simp add: json_loads_def del: scan_value.simps)
qed

lemma hex_digit_ascii: "d < 16 \<Longrightarrow> (of_char (hex_digit d) :: nat) < 128"
  by (simp add: hex_digit_def)

lemma esc_char_ascii: "\<forall>c \<in> set (esc_char x). (of_char c :: nat) < 128"
  by (auto simp: esc_char_def hex4_def hex_digit_ascii)

lemma show_nat_ascii: "\<forall>c \<in> set (show_nat n). (of_char c :: nat) < 128"
  using show_nat_all_digits[of n] by (auto simp: dec_digit_def)

lemma set_join_with:
  "c \<in> set (join_with sep xs) \<Longrightarrow> c \<in> set sep \<or> (\<exists>x \<in> set xs. c \<in> set x)"
  by (induction sep xs rule: join_with.induct) auto

lemma dump_str_ascii: "\<forall>c \<in> set (dump_str s). (of_char c :: nat) < 128"
  using esc_char_ascii by (auto simp: dump_str_def)

lemma dumps_ascii: "list_all (\<lambda>c. (of_char c :: nat) < 128) (json_dumps v)"
proof (induction v)
  case (JInt i)
  then show ?case using show_nat_ascii by (auto simp: show_int_def list_all_iff)
next
  case (JStr s)
  then show ?case using dump_str_ascii by (simp add: list_all_iff)
next
  case (JList xs)
  then show ?case by (auto simp: list_all_iff dest!: set_join_with)
next
  case (JObj kvs)
  then show ?case using dump_str_ascii
    by (fastforce simp: list_all_iff intro: snds.intros dest!: set_join_with)
qed simp_all

lemma take_dumps_ascii: "list_all (\<lambda>c. (of_char c :: nat) < 128) (take n (json_dumps v))"
  using dumps_ascii[of v] by (auto simp: list_all_iff dest: in_set_takeD)

lemma dumps_nonempty: "json_dumps v \<noteq> []"
  using dumps_head[of v] by auto

lemma dht_query_container: "dht_query sha1 ds key = Inr (r, ds') \<Longrightarrow> is_container r"
  by (auto simp: dht_query_def error_dict_def is_container_def split: sum.splits option.splits)

lemma concat_replicate_single: "concat (replicate n [x]) = replicate n x"
  by (induction n) simp_all

lemma esc_char_plain: "32 \<le> (of_char c :: nat) \<Longrightarrow> (of_char c :: nat) \<le> 126 \<Longrightarrow>
    c \<noteq> CHR 0x5C \<Longrightarrow> c \<noteq> CHR 0x22 \<Longrightarrow> esc_char c = [c]"
  by (auto simp: esc_char_def)

lemma dump_str_replicate_a: "dump_str (replicate n CHR ''a'') = CHR 0x22 # replicate n CHR ''a'' @ [CHR 0x22]"
  by (simp add: dump_str_def esc_char_plain concat_replicate_single)

subsection \<open>The fuel suffices\<close>

lemma skip_ws_le: "length (skip_ws s) \<le> length s"
  by (simp add: skip_ws_def length_dropWhile_le)

lemma skip_ws_Cons_lt: "skip_ws s = c # r \<Longrightarrow> length r < length s"
  using skip_ws_le[of s] by simp

lemma fuel_ok_mono: "fuel_ok res s \<Longrightarrow> length s \<le> length t \<Longrightarrow> fuel_ok res t"
  by (auto simp: fuel_ok_def split: sum.splits prod.splits)

lemma scan_str_fuel_ok: "fuel_ok (scan_str acc s) s"
proof (induction acc s rule: scan_str.induct)
  case (2 acc c cs)
  show ?case
  proof (cases "c = CHR 0x22 \<or> c \<noteq> CHR 0x5C")
    case True
    then show ?thesis using 2(3) fuel_ok_mono[of _ cs "c # cs"] by (auto simp: fuel_ok_def)
  next
    case False
    then have bs: "c = CHR 0x5C" by simp
    show ?thesis
    proof (cases cs)
      case (Cons e r)
      show ?thesis
      proof (cases "e = CHR ''u''")
        case True
        show ?thesis
        proof (cases "\<exists>a b c' d r'. r = a # b # c' # d # r'")
          case True
          then obtain a b c' d r' where r: "r = a # b # c' # d # r'" by blast
          have "fuel_ok (scan_str (char_of n # acc) r') (c # cs)"
            if "hex4_val a b c' d = Some n" "n < 256" for n
            using 2(1)[OF _ bs Cons \<open>e = CHR ''u''\<close> r _ _ _ that] fuel_ok_mono[of _ r' "c # cs"] bs Cons r
            by fastforce
          then show ?thesis using bs Cons \<open>e = CHR ''u''\<close> r
            by (auto simp: fuel_ok_def split: option.splits)
        next
          case False
          then have "scan_str acc (c # cs) = Inl DecodeError" using bs Cons \<open>e = CHR ''u''\<close>
            by (auto split: list.splits)
          then show ?thesis by (simp add: fuel_ok_def)
        qed
      next
        case False
        have "fuel_ok (scan_str (ch # acc) r) (c # cs)" if "simple_escape e = Some ch" for ch
          using 2(2)[OF _ bs Cons False that] fuel_ok_mono[of _ r "c # cs"] bs Cons by simp
        then show ?thesis using bs Cons False by (auto simp: fuel_ok_def split: option.splits)
      qed
    qed (simp add: bs fuel_ok_def)
  qed
qed (simp add: fuel_ok_def)

lemma scan_uint_shorter: "scan_uint t = Some (n, r) \<Longrightarrow> length r < length t"
  by (auto simp: scan_uint_def le_imp_less_Suc length_dropWhile_le split: list.splits if_splits)

lemma scan_number_fuel_ok: "fuel_ok (scan_number s) s"
proof -
  obtain neg t where nt: "(case s of c # r \<Rightarrow> if c = CHR ''-'' then (True, r) else (False, s) | [] \<Rightarrow> (False, s)) = (neg, t)"
    by force
  have "length t \<le> length s" using nt by (auto split: list.splits if_splits)
  then show ?thesis using nt scan_uint_shorter[of t]
    by (fastforce simp: fuel_ok_def scan_number_def split: option.splits)
qed


lemma scan_value_step:
  assumes M: "\<And>acc s. 2 * length s + 1 < k \<Longrightarrow> fuel_ok (scan_members k acc s) s"
    and E: "\<And>acc s. 2 * length s + 1 < k \<Longrightarrow> fuel_ok (scan_elems k acc s) s"
    and len: "2 * length s < Suc k"
  shows "fuel_ok (scan_value (Suc k) s) s"
proof (cases s)
  case Nil
  then show ?thesis by (simp add: fuel_ok_def)
next
  case (Cons c r)
  consider (str) "c = CHR 0x22" | (obj) "c \<noteq> CHR 0x22" "c = CHR ''{''"
    | (arr) "c \<noteq> CHR 0x22" "c \<noteq> CHR ''{''" "c = CHR ''[''"
    | (atom) "c \<noteq> CHR 0x22" "c \<noteq> CHR ''{''" "c \<noteq> CHR ''[''" by blast
  then show ?thesis
  proof cases
    case str
    then show ?thesis using Cons scan_str_fuel_ok[of "[]" r]
      by (auto simp: fuel_ok_def split: sum.splits prod.splits)
  next
    case obj
    show ?thesis
    proof (cases "skip_ws r")
      case (Cons c2 r2)
      have "length r2 < length r" using skip_ws_Cons_lt[OF Cons] .
      then have "fuel_ok (scan_members k [] r2) s"
        using M[of r2 "[]"] len \<open>s = c # r\<close> fuel_ok_mono[of _ r2 s] by simp
      then show ?thesis using obj Cons \<open>s = c # r\<close> \<open>length r2 < length r\<close>
        by (simp add: fuel_ok_def)
    qed (simp add: obj Cons fuel_ok_def)
  next
    case arr
    show ?thesis
    proof (cases "skip_ws r")
      case (Cons c2 r2)
      have "length (c2 # r2) \<le> length r" using skip_ws_le[of r] Cons by simp
      then have "fuel_ok (scan_elems k [] (c2 # r2)) s"
        using E[of "c2 # r2" "[]"] len \<open>s = c # r\<close> fuel_ok_mono[of _ "c2 # r2" s] by simp
      then show ?thesis using arr Cons \<open>s = c # r\<close> skip_ws_Cons_lt[OF Cons]
        by (simp add: fuel_ok_def)
    qed (simp add: arr Cons fuel_ok_def)
  next
    case atom
    have n: "fuel_ok (scan_number (c # r)) (c # r)" by (rule scan_number_fuel_ok)
    show ?thesis using atom n unfolding Cons by (simp add: fuel_ok_def less_Suc_eq_le)
  qed
qed


lemma scan_members_step:
  assumes V: "\<And>s. 2 * length s < k \<Longrightarrow> fuel_ok (scan_value k s) s"
    and M: "\<And>acc s. 2 * length s + 1 < k \<Longrightarrow> fuel_ok (scan_members k acc s) s"
    and len: "2 * length s + 1 < Suc k"
  shows "fuel_ok (scan_members (Suc k) acc s) s"
proof (cases "scan_str [] s")
  case (Inl e)
  with scan_str_fuel_ok[of "[]" s] show ?thesis by (simp add: fuel_ok_def)
next
  case (Inr kr)
  obtain key r where kr: "kr = (key, r)" by force
  have r: "length r < length s" using scan_str_fuel_ok[of "[]" s] Inr kr by (simp add: fuel_ok_def)
  show ?thesis
  proof (cases "skip_ws r")
    case Nil
    with Inr kr show ?thesis by (simp add: fuel_ok_def)
  next
    case (Cons c r2)
    have r2: "length (skip_ws r2) < length r" using skip_ws_Cons_lt[OF Cons] skip_ws_le[of r2] by simp
    have v: "fuel_ok (scan_value k (skip_ws r2)) (skip_ws r2)" using V r r2 len by simp
    show ?thesis
    proof (cases "scan_value k (skip_ws r2)")
      case (Inl e)
      with v Inr kr Cons show ?thesis by (simp add: fuel_ok_def)
    next
      case (Inr vr)
      obtain v r3 where vr: "vr = (v, r3)" by force
      have r3: "length r3 < length (skip_ws r2)" using v Inr vr by (simp add: fuel_ok_def)
      show ?thesis
      proof (cases "skip_ws r3")
        case Nil
        with \<open>scan_str [] s = Inr kr\<close> kr Cons Inr vr show ?thesis by (simp add: fuel_ok_def)
      next
        case (Cons d r4)
        have r4: "length r4 < length s" using skip_ws_Cons_lt[OF Cons] r r2 r3 by simp
        have m: "fuel_ok (scan_members k (AList.update key v acc) r5) s" if "skip_ws r4 = q # r5" for q r5
        proof (rule fuel_ok_mono)
          show "fuel_ok (scan_members k (AList.update key v acc) r5) r5"
            using M skip_ws_Cons_lt[OF that] r4 len by simp
          show "length r5 \<le> length s" using skip_ws_Cons_lt[OF that] r4 by simp
        qed
        have sm: "scan_members (Suc k) acc s =
            (if c = CHR '':'' then
               (if d = CHR ''}'' then Inr (JObj (AList.update key v acc), r4)
                else if d = CHR '','' then
                  (case skip_ws r4 of
                    q # r5 \<Rightarrow> if q = CHR 0x22 then scan_members k (AList.update key v acc) r5
                             else Inl DecodeError
                  | [] \<Rightarrow> Inl DecodeError)
                else Inl DecodeError)
             else Inl DecodeError)"
          using \<open>scan_str [] s = Inr kr\<close> kr \<open>skip_ws r = c # r2\<close> Inr vr Cons by simp
        show ?thesis
        proof (cases "skip_ws r4")
          case Nil
          then show ?thesis unfolding sm using r4 by (simp add: fuel_ok_def)
        next
          case (Cons q r5)
          then show ?thesis unfolding sm using r4 m[OF Cons] by (simp add: fuel_ok_def)
        qed
      qed
    qed
  qed
qed

lemma scan_elems_step:
  assumes V: "\<And>s. 2 * length s < k \<Longrightarrow> fuel_ok (scan_value k s) s"
    and E: "\<And>acc s. 2 * length s + 1 < k \<Longrightarrow> fuel_ok (scan_elems k acc s) s"
    and len: "2 * length s + 1 < Suc k"
  shows "fuel_ok (scan_elems (Suc k) acc s) s"
proof -
  have v: "fuel_ok (scan_value k s) s" using V len by simp
  show ?thesis
  proof (cases "scan_value k s")
    case (Inl e)
    with v show ?thesis by (simp add: fuel_ok_def)
  next
    case (Inr vr)
    obtain v r where vr: "vr = (v, r)" by force
    have r: "length r < length s" using v Inr vr by (simp add: fuel_ok_def)
    show ?thesis
    proof (cases "skip_ws r")
      case Nil
      with Inr vr show ?thesis by (simp add: fuel_ok_def)
    next
      case (Cons d r2)
      have r2: "length (skip_ws r2) < length r" using skip_ws_Cons_lt[OF Cons] skip_ws_le[of r2] by simp
      have "fuel_ok (scan_elems k (acc @ [v]) (skip_ws r2)) (skip_ws r2)" using E r r2 len by simp
      then have "fuel_ok (scan_elems k (acc @ [v]) (skip_ws r2)) s"
        by (rule fuel_ok_mono) (use r r2 in simp)
      then show ?thesis using Inr vr Cons r skip_ws_Cons_lt[OF Cons] by (simp add: fuel_ok_def)
    qed
  qed
qed

lemma scan_fuel_enough:
  "(\<forall>s. 2 * length s < k \<longrightarrow> fuel_ok (scan_value k s) s) \<and>
   (\<forall>acc s. 2 * length s + 1 < k \<longrightarrow> fuel_ok (scan_members k acc s) s) \<and>
   (\<forall>acc s. 2 * length s + 1 < k \<longrightarrow> fuel_ok (scan_elems k acc s) s)"
proof (induction k)
  case (Suc k)
  have V: "\<And>s. 2 * length s < k \<Longrightarrow> fuel_ok (scan_value k s) s"
    and M: "\<And>acc s. 2 * length s + 1 < k \<Longrightarrow> fuel_ok (scan_members k acc s) s"
    and E: "\<And>acc s. 2 * length s + 1 < k \<Longrightarrow> fuel_ok (scan_elems k acc s) s"
    using Suc.IH by blast+
  show ?case
  proof (intro conjI allI impI)
    show "fuel_ok (scan_value (Suc k) s) s" if "2 * length s < Suc k" for s
      by (rule scan_value_step[OF M E that])
    show "fuel_ok (scan_members (Suc k) acc s) s" if "2 * length s + 1 < Suc k" for acc s
      by (rule scan_members_step[OF V M that])
    show "fuel_ok (scan_elems (Suc k) acc s) s" if "2 * length s + 1 < Suc k" for acc s
      by (rule scan_elems_step[OF V E that])
  qed
qed simp

lemma json_loads_fuel: "json_loads s \<noteq> Inl OutOfFuel"
proof -
  have "fuel_ok (scan_value (Suc (2 * length s)) (skip_ws s)) (skip_ws s)"
    using scan_fuel_enough[of "Suc (2 * length s)"] skip_ws_le[of s] by simp
  then show ?thesis
    unfolding json_loads_def fuel_ok_def by (simp del: scan_value.simps split: sum.splits prod.splits)
qed


lemma recv_response_fits:
  "wf_json v \<Longrightarrow> length (json_dumps v) \<le> 1024 \<Longrightarrow> recv_response (json_dumps v) = Inr v"
  using dumps_ascii[of v] json_loads_dumps_core[of v] by (simp add: recv_response_def)

lemma handle_conn_fits:
  "wf_json req \<Longrightarrow> length (json_dumps req) \<le> 1024 \<Longrightarrow>
   handle_conn sha1 n (json_dumps req) = Inr (handle_request sha1 n (Some req))"
  using dumps_nonempty[of req] dumps_ascii[of req] json_loads_dumps_core[of req]
  by (simp add: handle_conn_def recv_request_def)

subsection \<open>Properties\<close>

text \<open>
  C37. A reply that fits in one \<^verbatim>\<open>recv(1024)\<close> comes back as sent: for every
  value the decoder can produce, \<^verbatim>\<open>json.loads\<close> of the first 1024 bytes of
  \<^verbatim>\<open>json.dumps\<close> gives the value back, so \<^verbatim>\<open>send_request\<close> returns exactly the
  dict the peer's handler answered.
\<close>

theorem recv_response_roundtrip:
  assumes "wf_json v" and "length (json_dumps v) \<le> 1024"
  shows "recv_response (json_dumps v) = Inr v"
  using assms by (rule recv_response_fits)

theorem recv_response_roundtrip_witness:
  "recv_response (json_dumps (JObj [(''status'', JStr ''success''), (''value'', JInt 42)])) =
     Inr (JObj [(''status'', JStr ''success''), (''value'', JInt 42)])"
  by (rule recv_response_roundtrip) (simp_all add: dump_str_def esc_char_def show_int_def show_nat_def nat_digits.simps)

text \<open>
  C38. The wire refines the direct call: a request whose encoding fits in 1024 bytes
  is handled by \<^verbatim>\<open>handle_request\<close> exactly as \<open>Node.handle_request\<close> handles
  the decoded request, which is the step the network model takes for every connection.
\<close>

theorem handle_conn_refines:
  assumes "wf_json req" and "length (json_dumps req) \<le> 1024"
  shows "handle_conn sha1 n (json_dumps req) = Inr (handle_request sha1 n (Some req))"
  using assms by (rule handle_conn_fits)

theorem handle_conn_refines_witness:
  "handle_conn (\<lambda>s. length s) (init_node (\<lambda>s. length s) ''10.0.0.1'' 5000)
      (json_dumps (find_successor_request (JInt 7))) =
   Inr (handle_request (\<lambda>s. length s) (init_node (\<lambda>s. length s) ''10.0.0.1'' 5000)
      (Some (find_successor_request (JInt 7))))"
  by (rule handle_conn_refines)
     (simp_all add: find_successor_request_def dump_str_def esc_char_def show_int_def show_nat_def
       nat_digits.simps)

text \<open>
  C39. A request longer than 1024 bytes is never processed: the handler reads a
  truncated text, \<^verbatim>\<open>json.loads\<close> raises, the exception is caught and the
  connection closed without a reply; the node's state is unchanged.  Nothing is
  "truncated and stored".
\<close>

theorem long_request_dropped:
  assumes "wf_json req" and "is_container req" and "1024 < length (json_dumps req)"
  shows "handle_conn sha1 n (json_dumps req) = Inr None"
  using assms dumps_nonempty[of req] take_dumps_ascii[of 1024 req] json_loads_truncated[OF assms(1,2), of 1024]
  by (simp add: handle_conn_def recv_request_def handle_request_def)

theorem long_request_dropped_witness:
  "handle_conn (\<lambda>s. length s) (init_node (\<lambda>s. length s) ''10.0.0.1'' 5000)
     (json_dumps (JObj [(''command'', JStr ''insert''), (''key'', JStr ''song''),
                        (''value'', JStr (replicate 1100 CHR ''a''))])) = Inr None"
  by (rule long_request_dropped) (simp_all add: is_container_def dump_str_replicate_a dump_str_def esc_char_def)

text \<open>
  C40. A stored value whose \<^verbatim>\<open>query\<close> reply is longer than 1024 bytes never
  reaches the caller: \<^verbatim>\<open>send_request\<close> reads a truncated reply, \<^verbatim>\<open>json.loads\<close>
  raises, and the caller gets an error dict instead of the value.
\<close>

theorem long_query_reply_lost:
  assumes "dht_query sha1 ds key = Inr (r, ds')" and "wf_json r" and "1024 < length (json_dumps r)"
  shows "recv_response (json_dumps r) = Inl DecodeError"
  using take_dumps_ascii[of 1024 r] json_loads_truncated[OF assms(2) dht_query_container[OF assms(1)], of 1024] assms(3)
  by (simp add: recv_response_def)

theorem long_query_reply_lost_witness:
  "recv_response (json_dumps (JObj [(''status'', JStr ''success''), (''value'', JStr (replicate 1100 CHR ''a''))])) =
     Inl DecodeError"
proof (rule long_query_reply_lost)
  show "dht_query (\<lambda>s. length s) [hash_key (\<lambda>s. length s) ''song'' \<mapsto> JStr (replicate 1100 CHR ''a'')] (JStr ''song'') =
      Inr (JObj [(''status'', JStr ''success''), (''value'', JStr (replicate 1100 CHR ''a''))],
           [hash_key (\<lambda>s. length s) ''song'' \<mapsto> JStr (replicate 1100 CHR ''a'')])"
    by simp
qed (simp_all add: dump_str_replicate_a dump_str_def esc_char_def)

end
