(* ===== verification/Processes.thy ===== *)
theory Processes
  imports Network
begin

text \<open>
  Node processes started concurrently.  In \<open>Network\<close> a node start
  (\<^verbatim>\<open>__init__\<close>: join, then the server thread) is one atomic step.  In the code
  it is three: the lookup \<^verbatim>\<open>send_request\<close> of \<^verbatim>\<open>join\<close> (lines 84-93), the
  \<^verbatim>\<open>update_predecessor\<close> announcement (lines 95-106), and \<^verbatim>\<open>start_server\<close>
  in its thread (lines 30-31), and the steps of different processes, and client
  requests, interleave.  \<open>proc\<close> is how far a process has come, \<open>proc_step\<close> its
  next step, \<open>sys_step\<close> one step of any process or client, \<open>sys_reach\<close> the
  states reachable from no processes and an empty network.
\<close>

datatype proc =
    Boot string int "(string \<times> int) option"
  | Announce node json json
  | Ready node
  | Serving
  | Hung

text \<open>
  The lookup half of \<^verbatim>\<open>join\<close> (lines 84-93, with the \<^verbatim>\<open>else\<close> and
  \<^verbatim>\<open>except\<close> of lines 108-112): a lookup that never returns leaves the process
  \<open>Hung\<close> in \<^verbatim>\<open>__init__\<close>; an error reply, or an exception on reading it, ends
  the join; a successor is recorded before its \<^verbatim>\<open>ip\<close> and \<^verbatim>\<open>port\<close> are read.
\<close>

definition join_lookup :: "digest \<Rightarrow> network \<Rightarrow> node \<Rightarrow> string \<Rightarrow> int \<Rightarrow> proc \<times> network" where
  "join_lookup sha1 net n bip bport =
    (case send_request sha1 net (JStr bip) (JInt bport) (find_successor_request (JInt (node_id n))) of
      None \<Rightarrow> (Hung, net)
    | Some (resp, net1) \<Rightarrow>
       (case dict_idx resp ''status'' of
         Inl _ \<Rightarrow> (Ready n, net1)
       | Inr st \<Rightarrow>
          if st = JStr ''success'' then
            (case dict_idx resp ''successor'' of
              Inl _ \<Rightarrow> (Ready n, net1)
            | Inr s \<Rightarrow>
               (case dict_idx s ''ip'' of
                 Inl _ \<Rightarrow> (Ready (n\<lparr>successor := Some s\<rparr>), net1)
               | Inr sa \<Rightarrow>
                  (case dict_idx s ''port'' of
                    Inl _ \<Rightarrow> (Ready (n\<lparr>successor := Some s\<rparr>), net1)
                  | Inr sp \<Rightarrow> (Announce (n\<lparr>successor := Some s\<rparr>) sa sp, net1))))
          else (Ready n, net1)))"

text \<open>One step of a process of \<^verbatim>\<open>__init__\<close> (lines 18-31).\<close>

fun proc_step :: "digest \<Rightarrow> network \<Rightarrow> proc \<Rightarrow> proc \<times> network" where
  "proc_step sha1 net (Boot a p boot) =
    (let n0 = init_node sha1 a p in
     case boot of
       Some (bip, bport) \<Rightarrow>
         if bip \<noteq> [] \<and> bport \<noteq> 0 then join_lookup sha1 net n0 bip bport else (Ready (bootstrap n0), net)
     | None \<Rightarrow> (Ready (bootstrap n0), net))"
| "proc_step sha1 net (Announce n sa sp) =
    (case send_request sha1 net sa sp (update_predecessor_request n) of
      None \<Rightarrow> (Hung, net)
    | Some (_, net2) \<Rightarrow> (Ready n, net2))"
| "proc_step sha1 net (Ready n) = (Serving, start_server net n)"
| "proc_step sha1 net Serving = (Serving, net)"
| "proc_step sha1 net Hung = (Hung, net)"

inductive sys_step :: "digest \<Rightarrow> network \<times> proc list \<Rightarrow> network \<times> proc list \<Rightarrow> bool" for sha1 where
  spawn: "sys_step sha1 (net, ps) (net, ps @ [Boot a p boot])"
| proc: "i < length ps \<Longrightarrow> proc_step sha1 net (ps ! i) = (q, net') \<Longrightarrow> sys_step sha1 (net, ps) (net', ps[i := q])"
| request: "send_request sha1 net a p req = Some (r, net') \<Longrightarrow> sys_step sha1 (net, ps) (net', ps)"

inductive sys_reach :: "digest \<Rightarrow> network \<times> proc list \<Rightarrow> bool" for sha1 where
  empty: "sys_reach sha1 (Map.empty, [])"
| step: "sys_reach sha1 s \<Longrightarrow> sys_step sha1 s s' \<Longrightarrow> sys_reach sha1 s'"

text \<open>What a process in progress knows is consistent with the network.\<close>

fun proc_ok :: "digest \<Rightarrow> network \<Rightarrow> proc \<Rightarrow> bool" where
  "proc_ok sha1 net (Announce n sa sp) \<longleftrightarrow>
     node_id n = generate_id sha1 (ip n) (port n) \<and>
     (\<exists>r. net (ip r, port r) = Some r \<and> root_node r \<and> successor n = Some (self_descriptor r) \<and>
          sa = JStr (ip r) \<and> sp = JInt (port r))"
| "proc_ok sha1 net (Ready n) \<longleftrightarrow>
     node_id n = generate_id sha1 (ip n) (port n) \<and>
     (successor n = None \<or> root_node n \<or>
      (\<exists>r. net (ip r, port r) = Some r \<and> root_node r \<and> successor n = Some (self_descriptor r)))"
| "proc_ok sha1 net _ \<longleftrightarrow> True"

definition sys_inv :: "digest \<Rightarrow> network \<times> proc list \<Rightarrow> bool" where
  "sys_inv sha1 s \<longleftrightarrow> star_inv sha1 (fst s) \<and> (\<forall>q \<in> set (snd s). proc_ok sha1 (fst s) q)"

text \<open>A step of a process keeps the network's topology or adds the process's listener.\<close>

definition net_grows :: "network \<Rightarrow> network \<Rightarrow> bool" where
  "net_grows net net' \<longleftrightarrow> keeps_topology net net' \<or> net \<subseteq>\<^sub>m net'"

subsection \<open>The invariant\<close>

lemma self_descriptor_eq:
  "self_descriptor r' = self_descriptor r \<Longrightarrow> ip r' = ip r \<and> port r' = port r"
  by (simp add: self_descriptor_def node_descriptor_def)

lemma proc_ok_keeps:
  assumes kt: "keeps_topology net net'" and ok: "proc_ok sha1 net q"
  shows "proc_ok sha1 net' q"
proof (cases q)
  case (Announce n sa sp)
  with ok obtain r where r: "net (ip r, port r) = Some r" "root_node r"
    "successor n = Some (self_descriptor r)" "sa = JStr (ip r)" "sp = JInt (port r)"
    and nid: "node_id n = generate_id sha1 (ip n) (port n)" by auto
  from root_survives[OF kt r(1,2)] obtain r' where
    r': "net' (ip r', port r') = Some r'" "root_node r'" "self_descriptor r' = self_descriptor r" by blast
  with r self_descriptor_eq[of r' r] have "successor n = Some (self_descriptor r')"
    "sa = JStr (ip r')" "sp = JInt (port r')" by simp_all
  with r' nid Announce show ?thesis by auto
next
  case (Ready n)
  with ok have nid: "node_id n = generate_id sha1 (ip n) (port n)" by simp
  from ok Ready have "successor n = None \<or> root_node n \<or>
      (\<exists>r. net (ip r, port r) = Some r \<and> root_node r \<and> successor n = Some (self_descriptor r))" by simp
  then have "successor n = None \<or> root_node n \<or>
      (\<exists>r. net' (ip r, port r) = Some r \<and> root_node r \<and> successor n = Some (self_descriptor r))"
    using root_survives[OF kt] by metis
  with nid Ready show ?thesis by simp
qed simp_all

lemma proc_ok_sub:
  assumes sub: "net \<subseteq>\<^sub>m net'" and ok: "proc_ok sha1 net q"
  shows "proc_ok sha1 net' q"
proof -
  have keep: "net' (ip r, port r) = Some r" if "net (ip r, port r) = Some r" for r
    using sub that by (auto simp: map_le_def dom_def)
  show ?thesis
  proof (cases q)
    case (Announce n sa sp)
    with ok keep show ?thesis by auto
  next
    case (Ready n)
    with ok keep show ?thesis by auto
  qed simp_all
qed

lemma start_server_sub: "net \<subseteq>\<^sub>m start_server net n"
  by (auto simp: start_server_def map_le_def)


lemma star_inv_start_server:
  assumes inv: "star_inv sha1 net" and ok: "proc_ok sha1 net (Ready n)"
  shows "star_inv sha1 (start_server net n)"
proof (cases "net (ip n, port n) = None \<and> 0 < port n \<and> port n \<le> 65535")
  case True
  then have "start_server net n = net((ip n, port n) \<mapsto> n)" by (simp add: start_server_def)
  moreover have "star_inv sha1 (net((ip n, port n) \<mapsto> n))"
    using True ok by (intro star_inv_add[OF inv]) auto
  ultimately show ?thesis by simp
next
  case False
  then have "start_server net n = net" by (auto simp: start_server_def)
  with inv show ?thesis by simp
qed

lemma announce_ready_ok: "proc_ok sha1 net (Announce n sa sp) \<Longrightarrow> proc_ok sha1 net (Ready n)"
  by auto

lemma join_lookup_star:
  assumes inv: "star_inv sha1 net"
  shows "join_lookup sha1 net (init_node sha1 a p) bip bport = (Ready (init_node sha1 a p), net) \<or>
         (\<exists>r. net (ip r, port r) = Some r \<and> root_node r \<and>
              join_lookup sha1 net (init_node sha1 a p) bip bport =
                (Announce ((init_node sha1 a p)\<lparr>successor := Some (self_descriptor r)\<rparr>)
                   (JStr (ip r)) (JInt (port r)), net))"
proof -
  obtain resp where look: "send_request sha1 net (JStr bip) (JInt bport)
      (find_successor_request (JInt (node_id (init_node sha1 a p)))) = Some (resp, net)"
    and ans: "lookup_answer net resp"
    using send_find_successor_answer[OF inv] by blast
  from ans show ?thesis
    unfolding lookup_answer_def
  proof (elim disjE exE conjE)
    fix m
    assume "resp = error_dict m"
    with look show ?thesis by (simp add: join_lookup_def)
  next
    fix r
    assume "net (ip r, port r) = Some r" "root_node r" "resp = success_successor (self_descriptor r)"
    with look show ?thesis
      by (intro disjI2 exI[of _ r]) (simp add: join_lookup_def self_descriptor_def)
  qed
qed

lemma proc_ok_grows: "net_grows net net' \<Longrightarrow> proc_ok sha1 net q \<Longrightarrow> proc_ok sha1 net' q"
  unfolding net_grows_def using proc_ok_keeps proc_ok_sub by blast

lemma proc_step_inv:
  assumes inv: "star_inv sha1 net" and ok: "proc_ok sha1 net q0" and st: "proc_step sha1 net q0 = (q, net')"
  shows "star_inv sha1 net' \<and> proc_ok sha1 net' q \<and> net_grows net net'"
proof (cases q0)
  case (Boot a p boot)
  have boot_ok: "proc_ok sha1 net (Ready (bootstrap (init_node sha1 a p)))"
    using bootstrap_root[of "init_node sha1 a p"] by (simp add: bootstrap_def)
  have "(q, net') = (Ready (bootstrap (init_node sha1 a p)), net) \<or>
        (q, net') = join_lookup sha1 net (init_node sha1 a p) (fst (the boot)) (snd (the boot))"
    using st Boot by (auto simp: Let_def split: option.splits if_splits)
  then show ?thesis
  proof
    assume "(q, net') = (Ready (bootstrap (init_node sha1 a p)), net)"
    with inv boot_ok show ?thesis by (simp add: net_grows_def)
  next
    assume j: "(q, net') = join_lookup sha1 net (init_node sha1 a p) (fst (the boot)) (snd (the boot))"
    from join_lookup_star[OF inv, of a p "fst (the boot)" "snd (the boot)"] j inv
    show ?thesis by (auto simp: net_grows_def)
  qed
next
  case (Announce n sa sp)
  show ?thesis
  proof (cases "send_request sha1 net sa sp (update_predecessor_request n)")
    case None
    with st Announce inv show ?thesis by (simp add: net_grows_def)
  next
    case (Some y)
    obtain x net2 where y: "y = (x, net2)" by force
    with Some have kt: "keeps_topology net net2" using send_request_keeps_topology by fastforce
    have qn: "q = Ready n" "net' = net2" using st Announce Some y by simp_all
    have "proc_ok sha1 net (Ready n)" using ok Announce announce_ready_ok by simp
    then have "proc_ok sha1 net2 (Ready n)" by (rule proc_ok_keeps[OF kt])
    with kt qn star_inv_keeps[OF inv kt] show ?thesis by (simp add: net_grows_def)
  qed
next
  case (Ready n)
  with st star_inv_start_server[OF inv] ok start_server_sub[of net n] show ?thesis
    by (auto simp: net_grows_def)
qed (use st inv in \<open>simp_all add: net_grows_def\<close>)


lemma sys_step_inv:
  "sys_step sha1 s s' \<Longrightarrow> sys_inv sha1 s \<Longrightarrow> sys_inv sha1 s'"
proof (induction rule: sys_step.induct)
  case (spawn net ps a p boot)
  then show ?case by (simp add: sys_inv_def)
next
  case (proc i ps net q net')
  then have inv: "star_inv sha1 net" and oks: "\<forall>q \<in> set ps. proc_ok sha1 net q"
    by (simp_all add: sys_inv_def)
  from proc.hyps(1) oks have "proc_ok sha1 net (ps ! i)" by simp
  from proc_step_inv[OF inv this proc.hyps(2)]
  have inv': "star_inv sha1 net'" and ok': "proc_ok sha1 net' q" and gr: "net_grows net net'"
    by simp_all
  have "\<forall>q' \<in> set (ps[i := q]). proc_ok sha1 net' q'"
    using set_update_subset_insert[of ps i q] ok' oks proc_ok_grows[OF gr] by blast
  with inv' show ?case by (simp add: sys_inv_def)
next
  case (request net a p req r net' ps)
  from send_request_keeps_topology[OF request.hyps] have "keeps_topology net net'" by simp
  with request.prems star_inv_keeps proc_ok_keeps show ?case by (fastforce simp: sys_inv_def)
qed

lemma sys_reach_inv: "sys_reach sha1 s \<Longrightarrow> sys_inv sha1 s"
proof (induction rule: sys_reach.induct)
  case empty
  show ?case by (simp add: sys_inv_def star_inv_empty)
next
  case (step s s')
  with sys_step_inv show ?case by blast
qed

subsection \<open>The atomic start is one schedule\<close>

lemma update_predecessor_request_succ [simp]:
  "update_predecessor_request (n\<lparr>successor := x\<rparr>) = update_predecessor_request n"
  by (simp add: update_predecessor_request_def)

text \<open>\<^verbatim>\<open>join\<close> is its lookup half followed by the announcement.\<close>

lemma join_split:
  "join sha1 net n bip bport =
    (case join_lookup sha1 net n bip bport of
      (Ready m, net1) \<Rightarrow> Some (m, net1)
    | (Announce m sa sp, net1) \<Rightarrow>
        (case proc_step sha1 net1 (Announce m sa sp) of (Ready m', net2) \<Rightarrow> Some (m', net2) | _ \<Rightarrow> None)
    | _ \<Rightarrow> None)"
  by (simp add: join_def join_lookup_def split: option.split sum.split prod.split)

lemma sys_steps_reach: "(sys_step sha1)\<^sup>*\<^sup>* s s' \<Longrightarrow> sys_reach sha1 s \<Longrightarrow> sys_reach sha1 s'"
  by (induction rule: rtranclp_induct) (auto intro: sys_reach.step)

lemma sys_step_last:
  "proc_step sha1 net q0 = (q, net') \<Longrightarrow> sys_step sha1 (net, ps @ [q0]) (net', ps @ [q])"
  using sys_step.proc[of "length ps" "ps @ [q0]" sha1 net q net'] by simp

lemma start_node_schedule:
  assumes st: "start_node sha1 net a p boot = Some net'"
  shows "(sys_step sha1)\<^sup>*\<^sup>* (net, ps @ [Boot a p boot]) (net', ps @ [Serving])"
proof -
  obtain n net1 where pre: "(case boot of
             Some (bip, bport) \<Rightarrow>
               if bip \<noteq> [] \<and> bport \<noteq> 0 then join sha1 net (init_node sha1 a p) bip bport
               else Some (bootstrap (init_node sha1 a p), net)
           | None \<Rightarrow> Some (bootstrap (init_node sha1 a p), net)) = Some (n, net1)"
    and net': "net' = start_server net1 n"
    using st by (auto simp: start_node_def Let_def split: option.splits)
  have ready: "(sys_step sha1)\<^sup>*\<^sup>* (net, ps @ [Boot a p boot]) (net1, ps @ [Ready n])"
  proof (cases "\<exists>bip bport. boot = Some (bip, bport) \<and> bip \<noteq> [] \<and> bport \<noteq> 0")
    case True
    then obtain bip bport where b: "boot = Some (bip, bport)" "bip \<noteq> []" "bport \<noteq> 0" by blast
    with pre have j: "join sha1 net (init_node sha1 a p) bip bport = Some (n, net1)" by simp
    have boot_step: "proc_step sha1 net (Boot a p boot) = join_lookup sha1 net (init_node sha1 a p) bip bport"
      using b by simp
    show ?thesis
    proof (cases "join_lookup sha1 net (init_node sha1 a p) bip bport")
      case (Pair q1 nt1)
      show ?thesis
      proof (cases q1)
        case (Ready m)
        with j Pair have "m = n" "nt1 = net1" by (simp_all add: join_split)
        with Ready Pair boot_step have "proc_step sha1 net (Boot a p boot) = (Ready n, net1)" by simp
        then show ?thesis by (intro r_into_rtranclp sys_step_last)
      next
        case (Announce m sa sp)
        with j Pair obtain nt2 where a2: "proc_step sha1 nt1 (Announce m sa sp) = (Ready n, net1)"
          by (auto simp: join_split split: prod.splits proc.splits)
        from Announce Pair boot_step have "sys_step sha1 (net, ps @ [Boot a p boot]) (nt1, ps @ [Announce m sa sp])"
          by (auto intro: sys_step_last)
        moreover from a2 have "sys_step sha1 (nt1, ps @ [Announce m sa sp]) (net1, ps @ [Ready n])"
          by (rule sys_step_last)
        ultimately show ?thesis by (meson rtranclp.rtrancl_into_rtrancl rtranclp.rtrancl_refl)
      qed (use j Pair in \<open>simp_all add: join_split\<close>)
    qed
  next
    case False
    with pre have "n = bootstrap (init_node sha1 a p)" "net1 = net"
      by (auto split: option.splits if_splits)
    moreover have "proc_step sha1 net (Boot a p boot) = (Ready (bootstrap (init_node sha1 a p)), net)"
      using False by (auto simp: Let_def split: option.splits)
    ultimately show ?thesis by (simp del: proc_step.simps) (intro r_into_rtranclp sys_step_last)
  qed
  have "sys_step sha1 (net1, ps @ [Ready n]) (net', ps @ [Serving])"
    using net' by (intro sys_step_last) simp
  with ready show ?thesis by simp
qed

lemma reachable_sys_reach: "reachable sha1 net \<Longrightarrow> \<exists>ps. sys_reach sha1 (net, ps)"
proof (induction rule: reachable.induct)
  case empty
  show ?case using sys_reach.empty by blast
next
  case (step net net')
  then obtain ps where r: "sys_reach sha1 (net, ps)" by blast
  from step.hyps(2) show ?case
  proof cases
    case (start a p boot)
    have "sys_reach sha1 (net, ps @ [Boot a p boot])" using sys_reach.step[OF r sys_step.spawn] .
    with start_node_schedule[OF start] sys_steps_reach show ?thesis by blast
  next
    case (request a p req r)
    with sys_reach.step[OF r sys_step.request] show ?thesis by blast
  qed
qed


subsection \<open>Properties\<close>

text \<open>
  C32. Node processes that start concurrently, their join lookups,
  \<^verbatim>\<open>update_predecessor\<close> announcements and server starts interleaved with each
  other and with client requests, still never form a ring: in every reachable state
  each set successor is a listening node that is its own successor, and every
  lookup returns, leaving the network unchanged.  The atomic starts of
  \<open>Network\<close> are one schedule of this system (\<open>reachable_sys_reach\<close>).
\<close>

theorem concurrent_starts_keep_star:
  assumes "sys_reach sha1 (net, ps)" and "net ad = Some n" and "successor n = Some s"
  shows "(\<exists>r. net (ip r, port r) = Some r \<and> successor r = Some (self_descriptor r) \<and> s = self_descriptor r) \<and>
         (\<exists>resp. send_request sha1 net a p (find_successor_request x) = Some (resp, net))"
proof -
  have inv: "star_inv sha1 net" using sys_reach_inv[OF assms(1)] by (simp add: sys_inv_def)
  have "\<exists>r. net (ip r, port r) = Some r \<and> successor r = Some (self_descriptor r) \<and> s = self_descriptor r"
    using star_invD(5)[OF inv assms(2)] assms(3) by (auto simp: root_node_def)
  moreover have "\<exists>resp. send_request sha1 net a p (find_successor_request x) = Some (resp, net)"
    using send_find_successor_answer[OF inv] by blast
  ultimately show ?thesis ..
qed

theorem concurrent_starts_keep_star_witness:
  "(\<exists>r. [(''10.0.0.1'', 5000) \<mapsto> bootstrap (init_node (\<lambda>s. length s) ''10.0.0.1'' 5000)] (ip r, port r) = Some r \<and>
        successor r = Some (self_descriptor r) \<and>
        self_descriptor (init_node (\<lambda>s. length s) ''10.0.0.1'' 5000) = self_descriptor r) \<and>
   (\<exists>resp. send_request (\<lambda>s. length s)
       [(''10.0.0.1'', 5000) \<mapsto> bootstrap (init_node (\<lambda>s. length s) ''10.0.0.1'' 5000)]
       (JStr ''10.0.0.1'') (JInt 5000) (find_successor_request (JInt 7)) =
       Some (resp, [(''10.0.0.1'', 5000) \<mapsto> bootstrap (init_node (\<lambda>s. length s) ''10.0.0.1'' 5000)]))"
proof -
  let ?n0 = "init_node (\<lambda>s. length s) ''10.0.0.1'' 5000"
  have s1: "sys_reach (\<lambda>s. length s) (Map.empty, [Boot ''10.0.0.1'' 5000 None])"
    using sys_reach.step[OF sys_reach.empty sys_step.spawn] by simp
  have "proc_step (\<lambda>s. length s) Map.empty (Boot ''10.0.0.1'' 5000 None) = (Ready (bootstrap ?n0), Map.empty)"
    by simp
  with s1 have s2: "sys_reach (\<lambda>s. length s) (Map.empty, [Ready (bootstrap ?n0)])"
    using sys_reach.step[OF s1 sys_step.proc[of 0]] by simp
  have "proc_step (\<lambda>s. length s) Map.empty (Ready (bootstrap ?n0)) =
      (Serving, [(''10.0.0.1'', 5000) \<mapsto> bootstrap ?n0])"
    by (simp add: start_server_def bootstrap_def)
  with s2 have r: "sys_reach (\<lambda>s. length s) ([(''10.0.0.1'', 5000) \<mapsto> bootstrap ?n0], [Serving])"
    using sys_reach.step[OF s2 sys_step.proc[of 0]] by simp
  show ?thesis
    by (rule concurrent_starts_keep_star[OF r, of "(''10.0.0.1'', 5000)" "bootstrap ?n0"])
       (simp_all add: bootstrap_def)
qed

end
