(* ===== verification/Spec2Isabelle.thy ===== *)
theory Spec2Isabelle
  imports Lifecycle Command_Line Typing Hops Threads Json_Wire Processes
begin

text \<open>
  \<^bold>\<open>Chordify: a verification development of \<^verbatim>\<open>src/node.py\<close>.\<close>

  The program is one Python class, \<^verbatim>\<open>ChordNode\<close>, run once per process.  A node
  derives its identifier from its address (\<^verbatim>\<open>generate_id\<close>), either seeds a
  one-node ring or joins through a bootstrap address (\<^verbatim>\<open>__init__\<close>, \<^verbatim>\<open>join\<close>),
  and then serves one JSON request per TCP connection (\<^verbatim>\<open>start_server\<close>,
  \<^verbatim>\<open>handle_request\<close>, \<^verbatim>\<open>process_request\<close>): key-value operations on its local
  dict (\<^verbatim>\<open>insert\<close>, \<^verbatim>\<open>query\<close>, \<^verbatim>\<open>delete\<close>), the routing step
  \<^verbatim>\<open>find_successor\<close>, which may forward the request to the successor through
  \<^verbatim>\<open>send_request\<close> and relay its answer, and \<^verbatim>\<open>update_predecessor\<close>.

  \<^bold>\<open>Theories.\<close>
  \<^item> \<open>Chord_Prelude\<close>: the digest parameter \<open>sha1\<close> (SHA-1 read as an integer; the
    hash itself is not modelled, every theorem holds for any digest), addresses,
    the \<open>py_simps\<close>/\<open>node_simps\<close> collections and generic lemmas.
  \<^item> \<open>Py_Json\<close>: the values \<^verbatim>\<open>json.loads\<close> yields (\<open>json\<close>), Python's
    exceptions as a datatype, \<^verbatim>\<open>d.get\<close>/\<^verbatim>\<open>d[k]\<close> (\<open>dict_get\<close>,
    \<open>dict_idx\<close>), the int comparisons including the chained \<^verbatim>\<open>a < b <= c\<close>
    (\<open>py_chain_lt_le\<close>), \<^verbatim>\<open>str()\<close>/\<^verbatim>\<open>repr()\<close> for the f-strings
    (\<open>py_str\<close>, \<open>show_int\<close>) and the error dict of \<^verbatim>\<open>send_request\<close>.
  \<^item> \<open>Identity\<close>: \<open>addr_string\<close>, \<open>generate_id\<close> (lines 46-49) and
    \<open>hash_key\<close> (lines 199, 205, 212).  Identifiers are in \<open>[0, 2^160)\<close>,
    equal the \<open>160 word\<close> reading of the digest, and share one space with keys;
    decimal printing is injective.  C20: a clash of the identifiers of two distinct
    addresses (hosts without \<^verbatim>\<open>:\<close>) is a SHA-1 collision between two distinct
    strings \<^verbatim>\<open>"ip:port"\<close>.
  \<^item> \<open>Store\<close>: \<open>dht_insert\<close>, \<open>dht_query\<close>, \<open>dht_delete\<close> (lines 197-216) on a
    map from hashed key to value, each returning the reply and the new map, with
    \<^verbatim>\<open>key.encode()\<close> failing on a non-string key; \<open>kv_abs\<close> is the abstract
    dict keyed by strings.  C15-C19: round trips, the not-found errors, the
    refinement of a string-keyed dict on collision-free keys, and key aliasing.
  \<^item> \<open>Node\<close>: the record \<open>node\<close> (the object's fields; \<open>successor = None\<close> is
    the attribute a failed join never sets), \<open>find_successor\<close> (lines 116-133),
    \<open>update_predecessor\<close> (139-143), \<open>process_request\<close> (176-195) and
    \<open>handle_request\<close> (161-173, \<open>None\<close> = connection closed without reply).  A
    handler answers (\<open>Respond\<close>) or forwards (\<open>Relay\<close>).  C7-C14: each branch of
    routing and dispatch, the error paths, and that no handler writes a successor.
  \<^item> \<open>Network\<close>: a network maps each listening address to its node.
    \<open>send_request\<close> (lines 146-156 together with the server side) is a
    \<^theory_text>\<open>partial_function (option)\<close>: a forwarded lookup has no hop bound in the
    code, and \<open>None\<close> is a lookup forwarded forever, so no fuel is chosen and
    termination is proved where it holds.  \<open>join\<close> (79-112), \<open>init_node\<close>,
    \<open>bootstrap\<close>, \<open>start_server\<close> (51-76) and \<open>start_node\<close> (13-31) build
    networks; \<open>net_step\<close> is one node start or one client request, \<open>reachable\<close>
    its closure from the empty network.  The invariant \<open>star_inv\<close> (every
    successor is unset or names a listening self-successor) holds in every
    reachable network (rule induction, \<open>reachable_star_inv\<close>).  C1-C6, C21, C23:
    lookups terminate within two hops in reachable networks, no ring of two or more
    nodes ever forms, the specification's two-node ring forwards forever outside
    \<open>(A, B]\<close>, join and startup behave as the code says, transport errors.
  \<^item> \<open>Lifecycle\<close>: \<open>signal_handler\<close> (lines 41-43, \<^verbatim>\<open>os._exit(0)\<close> on
    Ctrl+C) removes a node's listener and state at once; \<open>run_step\<close> is a node
    start, a client request or such an exit, \<open>reachable_run\<close> its closure.  A node
    may be started again at the same address, with the same identifier.  C24: with
    exits and restarts a run reaches a two-node forwarding cycle, so the termination
    of C1 depends on nodes never leaving.  C25: a lookup forwarded to a node that
    has exited ends in the connection-refused error dict.
  \<^item> \<open>Command_Line\<close>: the entry point \<open>main\<close> (lines 239-258) on \<^verbatim>\<open>sys.argv\<close>,
    with Python's \<^verbatim>\<open>int()\<close> on strings as \<open>py_int\<close> (whitespace, sign, digits with
    single underscores; \<^verbatim>\<open>ValueError\<close> otherwise) and the outcomes \<open>cli_outcome\<close>
    (usage exit, uncaught exception, running node).  C26-C28: printed ports are read
    back, a non-numeric port kills the process, and a falsy bootstrap address starts
    a new ring.
  \<^item> \<open>Typing\<close>: the shape of the ring state.  \<open>wf_descriptor\<close> is a
    \<^verbatim>\<open>{node_id, ip, port}\<close> dict whose id is \<open>generate_id\<close> of its address and whose
    port is in \<open>1..65535\<close>; \<open>typed_net\<close> asks it of every successor.  It holds in every
    network reachable with exits (rule induction over \<open>run_step\<close>, preservation by
    each start, request and exit).  C29-C30: successors are always unset or such
    descriptors, and lookups answer only error dicts or such descriptors.
  \<^item> \<open>Hops\<close>: one connection of \<^verbatim>\<open>send_request\<close> as \<open>send_hop\<close> (answer, or
    where the contacted node forwards) and the hop-bounded loop \<open>send_hops k\<close>, the
    reference with fuel \<open>k\<close>.  The fixpoint \<open>send_request\<close> answers exactly what
    some budget answers (\<open>send_request_hops_equiv\<close>: \<open>None\<close> there means unbounded
    forwarding, not a stub).  C31: with no exits, a lookup is answered within two
    connections, with the answer of the unbounded loop.
  \<^item> \<open>Threads\<close>: the thread per connection of \<^verbatim>\<open>start_server\<close> on one node's
    store.  A handler is a program counter over the dict statements of \<^verbatim>\<open>insert\<close>,
    \<^verbatim>\<open>query\<close> and \<^verbatim>\<open>delete\<close> (\<open>handler_pc\<close>, \<open>tstep\<close>: each statement atomic under
    the interpreter lock, a caught \<^verbatim>\<open>KeyError\<close> closing the connection), and an
    interleaving is a schedule of thread indices (\<open>run_sched\<close>).  Serial schedules
    give the atomic \<open>Store\<close> operations (\<open>serial_schedule_refines_atomic\<close>).
    C33-C36: an insert and a delete of one key are linearizable under every schedule;
    a query or a second delete racing a delete loses its reply; without deletes no
    interleaving loses a reply.
  \<^item> \<open>Processes\<close>: node processes started concurrently.  \<^verbatim>\<open>__init__\<close>
    (lines 18-31) is three steps of a process, \<open>proc_step\<close>: the lookup half of
    \<^verbatim>\<open>join\<close> (\<open>join_lookup\<close>, lines 84-93 and 108-112), the
    \<^verbatim>\<open>update_predecessor\<close> announcement (95-106), and \<open>start_server\<close>;
    \<open>proc\<close> records how far each process has come (\<open>Hung\<close>: a lookup that
    never returns).  \<open>sys_step\<close> interleaves the steps of all processes with
    client requests and new processes; \<open>sys_reach\<close> is its closure.
    \<open>join_split\<close> shows \<open>join\<close> is the lookup step followed by the
    announcement step, and \<open>reachable_sys_reach\<close> that every atomic run of
    \<open>Network\<close> is one schedule.  The invariant \<open>sys_inv\<close> (\<open>star_inv\<close> of the
    network, and every successor a process has learned but not yet announced or
    served names a listening root) holds in every reachable state (rule induction
    over \<open>sys_step\<close>).  C32: under every interleaving no ring forms and every
    lookup returns.
  \<^item> \<open>Json_Wire\<close>: the bytes on a connection.  \<open>json_dumps\<close> is
    \<^verbatim>\<open>json.dumps\<close> with its defaults (ASCII escapes, \<^verbatim>\<open>", "\<close>/\<^verbatim>\<open>": "\<close>),
    \<open>json_loads\<close> the decoder (\<open>scan_value\<close>, \<open>scan_members\<close>,
    \<open>scan_elems\<close>, \<open>scan_str\<close>, \<open>scan_number\<close>) with fuel twice the input
    length plus one, proved never to run out (\<open>json_loads_fuel\<close>);
    \<open>recv_request\<close> and \<open>recv_response\<close> are the \<^verbatim>\<open>recv(1024)\<close> reads of
    \<^verbatim>\<open>handle_request\<close> (lines 164-169) and \<^verbatim>\<open>send_request\<close> (151-154),
    \<open>handle_conn\<close> the handler on the sent bytes.  The decoder inverts the
    encoder on every value with distinct dict keys, also followed by more text
    (\<open>scan_value_dump\<close>), and every proper prefix of an encoded list or dict is a
    decode error (\<open>scan_container_prefix\<close>).  C37-C40: replies that fit come back
    as sent; the wire refines the direct call of \<open>Node.handle_request\<close> that
    \<open>Network\<close> takes for requests that fit; longer requests are dropped unprocessed;
    a query reply longer than 1024 bytes never reaches the caller.
  \<^item> This theory: C22, an insert followed by a query at any listening node,
    whatever its place in the ring (the store never checks ownership), through the
    network and on the bytes of the connections, for messages that fit one
    \<^verbatim>\<open>recv(1024)\<close>.  \<open>Network.send_request\<close> passes decoded values, which is exact
    only for such messages (C38); longer ones are dropped or lost (C39, C40), and
    lookups whose target is that long are outside the network-level claims.

  \<^bold>\<open>How the code's behaviour maps.\<close>  Mutation of \<^verbatim>\<open>self.*\<close> is a new record
  returned by the handler and written back into the network map; every Python
  exception is an \<open>Inl\<close> value, and the places that catch it (\<^verbatim>\<open>send_request\<close>,
  \<^verbatim>\<open>join\<close>, \<^verbatim>\<open>handle_request\<close>) turn it into the error dict, a silently
  kept state, or a closed connection, as the code does.  A whole request chain
  (including forwarding) is one atomic step of the network.

  \<^bold>\<open>Not modelled, and why.\<close>  A single request chain is one atomic step, also in
  \<open>Processes\<close>: \<^verbatim>\<open>update_predecessor\<close> is a single assignment (last writer
  wins), and a forwarding \<^verbatim>\<open>find_successor\<close> handler touches no node state while
  it waits for its successor, so splitting a chain changes no outcome; the store
  handlers, whose statements do race, are interleaved in \<open>Threads\<close>.
  The keep-alive loop of \<^verbatim>\<open>__init__\<close> (lines 37-38) only keeps the process
  alive; its end is the exit step of \<open>Lifecycle\<close>.
  On the wire: a \<^verbatim>\<open>recv\<close> returning fewer bytes than were sent (TCP
  segmentation) is not modelled, \<open>Json_Wire\<close> reads one segment; floats,
  \<^verbatim>\<open>NaN\<close> and code points above \<open>0xFF\<close> are the outcome \<open>Unmodelled\<close>
  (no sender of this program produces them).  Console output, host-name resolution
  (addresses are compared as strings) and \<^verbatim>\<open>bind\<close> failures other than a busy
  address or a port outside \<open>1..65535\<close>.  Dead code: the body of the commented-out
  \<^verbatim>\<open>shutdown\<close> sits after the returns of \<^verbatim>\<open>delete\<close>, and \<^verbatim>\<open>join_network\<close>
  is never called.

  Floats in requests (a float \<^verbatim>\<open>node_id\<close> compared with int identifiers):
  no sender of this program produces one, and the decoder reports them as
  \<open>Unmodelled\<close>.  The SHA-1 function itself is a parameter (\<open>sha1\<close>).
\<close>

subsection \<open>Properties spanning the components\<close>



end
